theory Spec2Isabelle
  imports Complex_Main "HOL-Library.Log_Nat" "HOL-Library.Word"
begin

section \<open>Go's float64\<close>

text \<open>
  A Go \<^verbatim>\<open>float64\<close> is an IEEE-754 binary64 datum: a NaN, one of the two infinities,
  or a finite number with a sign, where zero exists with both signs. The model keeps
  exactly these data. A finite non-zero number and positive zero are \<open>Fin q\<close> with \<open>q\<close>
  the rational it denotes; negative zero is \<open>NegZero\<close>. All NaN payloads are one value
  \<open>NaN\<close>: the program reads a NaN only through comparisons and \<^verbatim>\<open>math.IsNaN\<close>, which
  do not see the payload.

  Every arithmetic operation computes the exact rational result and rounds it once, to
  nearest with ties to even, into the binary64 format (53 significant bits, exponents
  from \<open>-1022\<close> to \<open>1023\<close>, gradual underflow, overflow to an infinity). The Go
  specification allows a compiler to fuse \<^verbatim>\<open>x*y + z\<close> into one rounding on some
  architectures; the model rounds every operation separately, as amd64 does.
\<close>

datatype float64 = NaN | PInf | NInf | NegZero | Fin rat

definition pow2 :: "int \<Rightarrow> rat" where
  "pow2 e = (if 0 \<le> e then 2 ^ nat e else 1 / 2 ^ nat (- e))"

text \<open>\<open>ilog2 q\<close> is \<open>\<lfloor>log\<^sub>2 \<bar>q\<bar>\<rfloor>\<close> for \<open>q \<noteq> 0\<close>, from the bit lengths of numerator and
  denominator.\<close>

definition ilog2 :: "rat \<Rightarrow> int" where
  "ilog2 q = (case quotient_of \<bar>q\<bar> of (a, b) \<Rightarrow>
     (let d = bitlen a - bitlen b
      in if pow2 d \<le> \<bar>q\<bar> then d else d - 1))"

text \<open>The exponent of the unit in the last place at \<open>q\<close>: 52 below the binade of \<open>q\<close>,
  and never below that of the subnormal numbers.\<close>

definition ulp_exp :: "rat \<Rightarrow> int" where
  "ulp_exp q = max (ilog2 q) (- 1022) - 52"

definition round_even :: "rat \<Rightarrow> int" where
  "round_even r = (let f = \<lfloor>r\<rfloor>; d = r - of_int f
     in if d < 1 / 2 then f else if 1 / 2 < d then f + 1
        else if even f then f else f + 1)"

text \<open>The magnitude from which a rounded result overflows to an infinity.\<close>

definition overflow_threshold :: rat where
  "overflow_threshold = 2 ^ 1024"

text \<open>Rounding a non-zero exact result. A result that rounds to zero keeps its sign.\<close>

definition fround :: "rat \<Rightarrow> float64" where
  "fround q = (let e = ulp_exp q; v = of_int (round_even (q / pow2 e)) * pow2 e
     in if overflow_threshold \<le> \<bar>v\<bar> then (if 0 < q then PInf else NInf)
        else if v = 0 \<and> q < 0 then NegZero
        else Fin v)"

text \<open>An untyped Go constant used as a \<^verbatim>\<open>float64\<close> is rounded to the format.\<close>

definition const64 :: "rat \<Rightarrow> float64" where
  "const64 q = (if q = 0 then Fin 0 else fround q)"

definition MaxFloat64 :: float64 where
  "MaxFloat64 = Fin ((2 ^ 53 - 1) * 2 ^ 971)"

fun valof :: "float64 \<Rightarrow> rat" where
  "valof (Fin q) = q"
| "valof _ = 0"

fun IsNaN :: "float64 \<Rightarrow> bool" where
  "IsNaN NaN = True"
| "IsNaN _ = False"

text \<open>\<^verbatim>\<open>math.IsInf(f, sign)\<close>: \<open>sign > 0\<close> asks for \<open>+Inf\<close>, \<open>sign < 0\<close> for \<open>-Inf\<close>,
  \<open>sign = 0\<close> for either.\<close>

definition IsInf :: "float64 \<Rightarrow> int \<Rightarrow> bool" where
  "IsInf f sign = (0 \<le> sign \<and> f = PInf \<or> sign \<le> 0 \<and> f = NInf)"

fun is_zero :: "float64 \<Rightarrow> bool" where
  "is_zero NegZero = True"
| "is_zero (Fin q) = (q = 0)"
| "is_zero _ = False"

fun signbit :: "float64 \<Rightarrow> bool" where
  "signbit NInf = True"
| "signbit NegZero = True"
| "signbit (Fin q) = (q < 0)"
| "signbit _ = False"

definition zero_of :: "bool \<Rightarrow> float64" where
  "zero_of neg = (if neg then NegZero else Fin 0)"

definition inf_of :: "bool \<Rightarrow> float64" where
  "inf_of neg = (if neg then NInf else PInf)"

fun fneg :: "float64 \<Rightarrow> float64" where
  "fneg NaN = NaN"
| "fneg PInf = NInf"
| "fneg NInf = PInf"
| "fneg NegZero = Fin 0"
| "fneg (Fin q) = (if q = 0 then NegZero else Fin (- q))"

fun Abs :: "float64 \<Rightarrow> float64" where
  "Abs NaN = NaN"
| "Abs PInf = PInf"
| "Abs NInf = PInf"
| "Abs NegZero = Fin 0"
| "Abs (Fin q) = Fin \<bar>q\<bar>"

text \<open>The comparisons \<^verbatim>\<open><\<close>, \<^verbatim>\<open>>\<close>, \<^verbatim>\<open>==\<close>, \<^verbatim>\<open>!=\<close>, \<^verbatim>\<open><=\<close>: false on a NaN
  (true for \<^verbatim>\<open>!=\<close>), and the two zeros are equal.\<close>

fun flt :: "float64 \<Rightarrow> float64 \<Rightarrow> bool" where
  "flt NaN _ = False"
| "flt _ NaN = False"
| "flt PInf _ = False"
| "flt _ NInf = False"
| "flt NInf _ = True"
| "flt _ PInf = True"
| "flt a b = (valof a < valof b)"

definition fgt :: "float64 \<Rightarrow> float64 \<Rightarrow> bool" where
  "fgt a b = flt b a"

fun feq :: "float64 \<Rightarrow> float64 \<Rightarrow> bool" where
  "feq NaN _ = False"
| "feq _ NaN = False"
| "feq PInf b = (b = PInf)"
| "feq a PInf = False"
| "feq NInf b = (b = NInf)"
| "feq a NInf = False"
| "feq a b = (valof a = valof b)"

definition fne :: "float64 \<Rightarrow> float64 \<Rightarrow> bool" where
  "fne a b = (\<not> feq a b)"

definition fle :: "float64 \<Rightarrow> float64 \<Rightarrow> bool" where
  "fle a b = (flt a b \<or> feq a b)"

text \<open>Addition: \<open>\<infinity> + (-\<infinity>)\<close> is NaN; an exact zero sum is \<open>+0\<close> unless both operands are
  \<open>-0\<close>.\<close>

fun fadd :: "float64 \<Rightarrow> float64 \<Rightarrow> float64" where
  "fadd NaN _ = NaN"
| "fadd _ NaN = NaN"
| "fadd PInf b = (if b = NInf then NaN else PInf)"
| "fadd NInf b = (if b = PInf then NaN else NInf)"
| "fadd a PInf = PInf"
| "fadd a NInf = NInf"
| "fadd a b = (let r = valof a + valof b
     in if r = 0 then zero_of (a = NegZero \<and> b = NegZero) else fround r)"

definition fsub :: "float64 \<Rightarrow> float64 \<Rightarrow> float64" where
  "fsub a b = fadd a (fneg b)"

text \<open>Multiplication: \<open>\<infinity> * 0\<close> is NaN; the sign of the result is the exclusive or of the
  signs.\<close>

definition fmul :: "float64 \<Rightarrow> float64 \<Rightarrow> float64" where
  "fmul a b =
    (if IsNaN a \<or> IsNaN b then NaN
     else if IsInf a 0 \<or> IsInf b 0 then
       (if is_zero a \<or> is_zero b then NaN else inf_of (signbit a \<noteq> signbit b))
     else (let r = valof a * valof b
           in if r = 0 then zero_of (signbit a \<noteq> signbit b) else fround r))"

text \<open>Division: \<open>\<infinity> / \<infinity>\<close> and \<open>0 / 0\<close> are NaN; a non-zero number over zero is an infinity;
  a finite number over an infinity is a zero.\<close>

definition fdiv :: "float64 \<Rightarrow> float64 \<Rightarrow> float64" where
  "fdiv a b =
    (if IsNaN a \<or> IsNaN b then NaN
     else if IsInf a 0 then
       (if IsInf b 0 then NaN else inf_of (signbit a \<noteq> signbit b))
     else if IsInf b 0 then zero_of (signbit a \<noteq> signbit b)
     else if is_zero b then
       (if is_zero a then NaN else inf_of (signbit a \<noteq> signbit b))
     else (let r = valof a / valof b
           in if r = 0 then zero_of (signbit a \<noteq> signbit b) else fround r))"

section \<open>Package numerics: Sign\<close>

definition Sign :: "float64 \<Rightarrow> int" where
  "Sign x = (if flt x (const64 0) then - 1 else if fgt x (const64 0) then 1 else 0)"

section \<open>Package root: the stepping strategies and Bisect\<close>

type_synonym func = "float64 \<Rightarrow> float64"

type_synonym Method = "float64 \<Rightarrow> func \<Rightarrow> func \<Rightarrow> float64"

definition NewtonRaphson :: Method where
  "NewtonRaphson x f df = fsub x (fdiv (f x) (df x))"

definition Homeier :: Method where
  "Homeier x f df = (let fxVal = f x
     in fsub x (fdiv fxVal (df (fsub x (fdiv (fmul (const64 (1 / 2)) fxVal) (df x))))))"

text \<open>\<^verbatim>\<open>bisectTolerance = 1e-11\<close>, \<^verbatim>\<open>bisectMaxIter = 100\<close>. The \<^verbatim>\<open>for\<close> loop of
  \<^verbatim>\<open>Bisect\<close> counts \<open>i\<close> from 0 up to \<open>bisectMaxIter\<close>; the recursion is on the number of
  iterations that remain.\<close>

definition bisectTolerance :: float64 where
  "bisectTolerance = const64 (1 / 10 ^ 11)"

definition bisectMaxIter :: nat where
  "bisectMaxIter = 100"

fun Bisect_loop :: "nat \<Rightarrow> func \<Rightarrow> float64 \<Rightarrow> float64 \<Rightarrow> float64" where
  "Bisect_loop 0 f a b = NaN"
| "Bisect_loop (Suc k) f a b =
     (let c = fdiv (fadd a b) (const64 2);
          fxVal = f c
      in if feq fxVal (const64 0) \<or> flt (fdiv (fsub b a) (const64 2)) bisectTolerance then c
         else if Sign fxVal = Sign (f a) then Bisect_loop k f c b
         else Bisect_loop k f a c)"

definition Bisect :: "func \<Rightarrow> float64 \<Rightarrow> float64 \<Rightarrow> float64" where
  "Bisect f aInit bInit = Bisect_loop bisectMaxIter f aInit bInit"

section \<open>Package root: Finder\<close>

text \<open>Go's \<^verbatim>\<open>int\<close> is a 64-bit two's complement integer on the 64-bit platforms:
  \<open>+\<close> wraps, and the comparisons are the signed ones.

  The functions \<^verbatim>\<open>fx\<close>, \<^verbatim>\<open>dfx\<close> and the stepping strategy are pure and total functions
  on \<^verbatim>\<open>float64\<close>; a \<^verbatim>\<open>nil\<close> function value, which panics when called, is not a
  value of these types. The field \<^verbatim>\<open>method\<close> of the source is \<open>method_fn\<close> here, and the
  local variable \<^verbatim>\<open>x\<close> of \<^verbatim>\<open>loop\<close> is \<open>xcur\<close>.\<close>

type_synonym go_int = "64 word"

record Finder =
  fx :: func
  dfx :: func
  method_fn :: Method
  xMin :: float64
  xMax :: float64
  minIterations :: go_int
  maxIterations :: go_int
  targetPrecision :: float64
  useHeuristics :: bool

text \<open>The functional options of \<^verbatim>\<open>options.go\<close>; an option is any function that
  updates the \<^verbatim>\<open>Finder\<close>.\<close>

type_synonym option_fn = "Finder \<Rightarrow> Finder"

definition WithMinIterations :: "go_int \<Rightarrow> option_fn" where
  "WithMinIterations nIterations n = n\<lparr>minIterations := nIterations\<rparr>"

definition WithMaxIterations :: "go_int \<Rightarrow> option_fn" where
  "WithMaxIterations nIterations n = n\<lparr>maxIterations := nIterations\<rparr>"

definition WithTargetPrecision :: "float64 \<Rightarrow> option_fn" where
  "WithTargetPrecision tp n = n\<lparr>targetPrecision := tp\<rparr>"

definition WithMethod :: "Method \<Rightarrow> option_fn" where
  "WithMethod m n = n\<lparr>method_fn := m\<rparr>"


definition WithHeuristics :: option_fn where
  "WithHeuristics n = n\<lparr>useHeuristics := True\<rparr>"

subsection \<open>One round of the loop\<close>

text \<open>The local variables of \<^verbatim>\<open>loop\<close>: \<^verbatim>\<open>x\<close>, \<^verbatim>\<open>nIter\<close> and the map
  \<^verbatim>\<open>resultLookup\<close>. The map has keys only; it is the list of the keys stored, and a
  lookup compares with \<^verbatim>\<open>==\<close> as Go's map of \<^verbatim>\<open>float64\<close> keys does (the two zeros are
  one key).\<close>

record locals =
  xcur :: float64
  nIter :: go_int
  resultLookup :: "float64 list"

text \<open>A round ends in one of the \<^verbatim>\<open>continue\<close> statements, in the \<^verbatim>\<open>return\<close>, or at the
  bottom of the loop body after \<^verbatim>\<open>nIter++\<close>. The \<open>branch\<close> names which; for the bottom
  it also says whether the convergence test was reached and what it gave.\<close>

datatype conv = NotChecked | NotConverged | Converged

datatype branch =
  UpperExcess | LowerExcess | NaNAbort | InfRecovery | CycleBisect | StationaryNudge
  | Accept conv

datatype outcome = Continue locals | Return float64

type_synonym round_result = "float64 \<times> branch \<times> outcome"

text \<open>\<^verbatim>\<open>x += 0.1*x + 0.1\<close> and \<^verbatim>\<open>x -= 0.1*x - 0.1\<close>.\<close>

definition nudge_up :: "float64 \<Rightarrow> float64" where
  "nudge_up x = fadd x (fadd (fmul (const64 (1 / 10)) x) (const64 (1 / 10)))"

definition nudge_down :: "float64 \<Rightarrow> float64" where
  "nudge_down x = fsub x (fsub (fmul (const64 (1 / 10)) x) (const64 (1 / 10)))"

text \<open>Lines 114 to 125: \<^verbatim>\<open>x = xNew\<close>, \<^verbatim>\<open>nIter++\<close> and the convergence test. \<open>seen\<close> is
  the map as this round leaves it.\<close>

definition accept :: "Finder \<Rightarrow> locals \<Rightarrow> float64 \<Rightarrow> float64 list \<Rightarrow> round_result" where
  "accept n s xNew seen =
    (let x = xNew;
         nIter' = nIter s + 1;
         s' = \<lparr>xcur = x, nIter = nIter', resultLookup = seen\<rparr>
     in if word_sle (minIterations n) nIter' then
          (if flt (Abs (fx n x)) (targetPrecision n) \<or> word_sle (maxIterations n) nIter'
           then (xNew, Accept Converged, Return x)
           else (xNew, Accept NotConverged, Continue s'))
        else (xNew, Accept NotChecked, Continue s'))"

text \<open>Lines 84 to 112, entered with \<^verbatim>\<open>useHeuristics\<close> set.\<close>

definition heuristics :: "Finder \<Rightarrow> locals \<Rightarrow> float64 \<Rightarrow> round_result" where
  "heuristics n s xNew =
    (if IsInf xNew 0 then
       (if IsInf xNew 1
        then (xNew, InfRecovery, Continue (s\<lparr>xcur := nudge_up (xcur s)\<rparr>))
        else (xNew, InfRecovery, Continue (s\<lparr>xcur := nudge_down (xcur s)\<rparr>)))
     else if fgt (Abs (fsub xNew (xcur s))) (const64 (1 / 10 ^ 15)) then
       (if list_ex (\<lambda>k. feq k xNew) (resultLookup s) then
          (if fne xNew (xcur s)
           then (xNew, CycleBisect,
                 Continue (s\<lparr>xcur := fdiv (fadd xNew (xcur s)) (const64 2)\<rparr>))
           else (xNew, StationaryNudge, Continue (s\<lparr>xcur := nudge_up (xcur s)\<rparr>)))
        else accept n s xNew (xNew # resultLookup s))
     else accept n s xNew (resultLookup s))"

text \<open>Lines 77 to 125: the NaN test, then the heuristics if enabled, then acceptance.\<close>

definition after_excess :: "Finder \<Rightarrow> locals \<Rightarrow> float64 \<Rightarrow> round_result" where
  "after_excess n s xNew =
    (if IsNaN xNew then (xNew, NaNAbort, Return NaN)
     else if useHeuristics n then heuristics n s xNew
     else accept n s xNew (resultLookup s))"

text \<open>The whole loop body, lines 59 to 125.\<close>

definition loop_body :: "Finder \<Rightarrow> locals \<Rightarrow> round_result" where
  "loop_body n s =
    (let xNew = method_fn n (xcur s) (fx n) (dfx n)
     in if \<not> IsInf xNew 0 then
          (if fgt xNew (xMax n)
           then (xNew, UpperExcess,
                 Continue (s\<lparr>xcur := fmul (const64 (1 / 2)) (fadd (xcur s) (xMax n))\<rparr>))
           else if flt xNew (xMin n)
           then (xNew, LowerExcess,
                 Continue (s\<lparr>xcur := fmul (const64 (1 / 2)) (fadd (xcur s) (xMin n))\<rparr>))
           else after_excess n s xNew)
        else after_excess n s xNew)"

subsection \<open>The loop and Find\<close>

text \<open>The \<^verbatim>\<open>for\<close> loop has no bound of its own, so it is a partial function: \<open>None\<close>
  is a run that never leaves the loop.\<close>

partial_function (option) loop_from :: "Finder \<Rightarrow> locals \<Rightarrow> float64 option" where
  "loop_from n s =
    (case snd (snd (loop_body n s)) of
       Return v \<Rightarrow> Some v
     | Continue s' \<Rightarrow> loop_from n s')"

definition loop_init :: "float64 \<Rightarrow> locals" where
  "loop_init xInit = \<lparr>xcur = xInit, nIter = 0, resultLookup = []\<rparr>"

definition loop :: "Finder \<Rightarrow> float64 \<Rightarrow> float64 option" where
  "loop n xInit = loop_from n (loop_init xInit)"

definition new_Finder :: "func \<Rightarrow> func \<Rightarrow> Finder" where
  "new_Finder f df =
    \<lparr>fx = f, dfx = df, method_fn = NewtonRaphson,
     xMin = fneg MaxFloat64, xMax = MaxFloat64,
     minIterations = 5, maxIterations = 25,
     targetPrecision = const64 (1 / 10 ^ 9), useHeuristics = False\<rparr>"

definition configure :: "func \<Rightarrow> func \<Rightarrow> option_fn list \<Rightarrow> Finder" where
  "configure f df options = foldl (\<lambda>obj option. option obj) (new_Finder f df) options"

definition Find :: "func \<Rightarrow> func \<Rightarrow> float64 \<Rightarrow> option_fn list \<Rightarrow> float64 option" where
  "Find f df xInit options = loop (configure f df options) xInit"

subsection \<open>Runs: the rounds of the loop, one by one\<close>

text \<open>\<open>run k n s\<close> executes at most \<open>k\<close> rounds from \<open>s\<close>. It gives the candidate and the
  branch of every round executed, and where the loop stands after them: returned, or
  about to start the next round.\<close>

fun run :: "nat \<Rightarrow> Finder \<Rightarrow> locals \<Rightarrow> (float64 \<times> branch) list \<times> outcome" where
  "run 0 n s = ([], Continue s)"
| "run (Suc k) n s =
    (case loop_body n s of
       (c, b, Return v) \<Rightarrow> ([(c, b)], Return v)
     | (c, b, Continue s') \<Rightarrow> (case run k n s' of (es, out) \<Rightarrow> ((c, b) # es, out)))"

fun is_Accept :: "float64 \<times> branch \<Rightarrow> bool" where
  "is_Accept (c, Accept v) = True"
| "is_Accept _ = False"

text \<open>The number of accepted steps in a run.\<close>

definition accepted :: "(float64 \<times> branch) list \<Rightarrow> nat" where
  "accepted es = length (filter is_Accept es)"

section \<open>Bisect, as the specification words it\<close>

text \<open>The specification describes \<^verbatim>\<open>Bisect\<close> by what one iteration does to the bracket
  \<open>(a, b)\<close>: the midpoint \<open>c = (a+b)/2\<close>; the stop condition, \<open>fx(c) == 0\<close> or
  \<open>(b-a)/2\<close> below the tolerance \<open>1e-11\<close>; and otherwise the move of \<open>a\<close> to \<open>c\<close> when
  the signs of \<open>fx(c)\<close> and \<open>fx(a)\<close> agree, of \<open>b\<close> to \<open>c\<close> when they do not.
  \<open>bracket f a b i\<close> is the bracket after \<open>i\<close> such moves.

  The sign of the specification has three classes, \<open>-1\<close>, \<open>0\<close> and \<open>1\<close>, with zero a
  class of its own. \<open>sign_class\<close> reads the class off the datum itself, not through the
  comparisons of the code: negative numbers and \<open>-Inf\<close> are in \<open>-1\<close>, positive numbers and
  \<open>+Inf\<close> in \<open>1\<close>, and both zeros in \<open>0\<close>, where a NaN, being neither negative nor
  positive, is put as well.\<close>

fun sign_class :: "float64 \<Rightarrow> int" where
  "sign_class NaN = 0"
| "sign_class PInf = 1"
| "sign_class NInf = - 1"
| "sign_class NegZero = 0"
| "sign_class (Fin q) = (if q < 0 then - 1 else if 0 < q then 1 else 0)"

definition bisect_mid :: "float64 \<times> float64 \<Rightarrow> float64" where
  "bisect_mid ab = fdiv (fadd (fst ab) (snd ab)) (const64 2)"

definition bisect_stop :: "func \<Rightarrow> float64 \<times> float64 \<Rightarrow> bool" where
  "bisect_stop f ab = (feq (f (bisect_mid ab)) (const64 0)
     \<or> flt (fdiv (fsub (snd ab) (fst ab)) (const64 2)) (const64 (1 / 10 ^ 11)))"

definition bisect_next :: "func \<Rightarrow> float64 \<times> float64 \<Rightarrow> float64 \<times> float64" where
  "bisect_next f ab = (if sign_class (f (bisect_mid ab)) = sign_class (f (fst ab))
     then (bisect_mid ab, snd ab) else (fst ab, bisect_mid ab))"

definition bracket :: "func \<Rightarrow> float64 \<Rightarrow> float64 \<Rightarrow> nat \<Rightarrow> float64 \<times> float64" where
  "bracket f a b i = (bisect_next f ^^ i) (a, b)"

section \<open>Functions to run the solvers on\<close>

text \<open>The scenario \<open>x\<^sup>2 - 612\<close> with derivative \<open>2x\<close> of the specification; \<open>x - 1\<close>, whose
  derivative is the constant 1; the constant functions; \<open>x\<^sup>2\<close> with derivative \<open>2x\<close>; two more scenarios of the specification, \<open>x\<^sup>3 - 2x + 2\<close> with derivative \<open>3x\<^sup>2 - 2\<close> (Newton's method cycles
  between 0 and 1) and \<open>1 - x\<^sup>2\<close> with derivative \<open>-2x\<close> (stationary at 0); and \<open>1/x\<close>
  with derivative \<open>-1/x\<^sup>2\<close>, on which Newton's method doubles \<open>x\<close> in every step.\<close>

definition f612 :: func where
  "f612 x = fsub (fmul x x) (const64 612)"

definition df612 :: func where
  "df612 x = fmul (const64 2) x"

definition lin1 :: func where
  "lin1 x = fsub x (const64 1)"

definition const_fn :: "float64 \<Rightarrow> func" where
  "const_fn v x = v"

definition square :: func where
  "square x = fmul x x"

definition dsquare :: func where
  "dsquare x = fmul (const64 2) x"

definition cubic :: func where
  "cubic x = fadd (fsub (fmul (fmul x x) x) (fmul (const64 2) x)) (const64 2)"

definition dcubic :: func where
  "dcubic x = fsub (fmul (fmul (const64 3) x) x) (const64 2)"





section \<open>Find, with the memory it allocates\<close>

text \<open>The functions above take the \<^verbatim>\<open>Finder\<close> and the map as values. In the program they
  are objects in memory: \<^verbatim>\<open>Find\<close> allocates the \<^verbatim>\<open>Finder\<close> (\<^verbatim>\<open>obj := &Finder{...}\<close>),
  every option updates it through the pointer, \<^verbatim>\<open>loop\<close> allocates the map
  (\<^verbatim>\<open>make(map[float64]struct{})\<close>), and each round reads the \<^verbatim>\<open>Finder\<close> through \<^verbatim>\<open>n\<close>
  and reads and writes the map. Memory outlives a call: what one call leaves there is
  what the next call finds. The package has no variables of its own, so the store holds
  exactly the objects allocated by calls.

  A store is the list of the cells allocated so far, and an address is an index into it.
  Allocation appends a cell and returns its address. A load from an address that holds
  no cell, or a cell of the wrong kind, is a fault; Go's typed pointers exclude it, and
  the model says so instead of assuming it. An option is a function on the \<^verbatim>\<open>Finder\<close> it
  is given, as the options of \<^verbatim>\<open>options.go\<close> are.\<close>

datatype cell = FinderCell Finder | MapCell "float64 list"

type_synonym store = "cell list"

definition alloc :: "cell \<Rightarrow> store \<Rightarrow> nat \<times> store" where
  "alloc c \<sigma> = (length \<sigma>, \<sigma> @ [c])"

datatype st_outcome = St_Continue float64 go_int store | St_Return float64 store | St_Fault

datatype st_final = Returned float64 store | Faulted

text \<open>The loop body of \<^verbatim>\<open>loop\<close> again, lines 59 to 125, on the store: \<open>pn\<close> is the
  pointer \<^verbatim>\<open>n\<close>, \<open>pm\<close> the map \<^verbatim>\<open>resultLookup\<close>, and \<open>x\<close>, \<open>nIt\<close> are the local
  variables \<^verbatim>\<open>x\<close> and \<^verbatim>\<open>nIter\<close>.\<close>

definition accept_st :: "Finder \<Rightarrow> go_int \<Rightarrow> float64 \<Rightarrow> store \<Rightarrow> st_outcome" where
  "accept_st n nIt xNew \<sigma> =
    (let x = xNew;
         nIter' = nIt + 1
     in if word_sle (minIterations n) nIter' then
          (if flt (Abs (fx n x)) (targetPrecision n) \<or> word_sle (maxIterations n) nIter'
           then St_Return x \<sigma>
           else St_Continue x nIter' \<sigma>)
        else St_Continue x nIter' \<sigma>)"

definition heuristics_st ::
  "Finder \<Rightarrow> nat \<Rightarrow> float64 \<Rightarrow> go_int \<Rightarrow> float64 \<Rightarrow> store \<Rightarrow> st_outcome" where
  "heuristics_st n pm x nIt xNew \<sigma> =
    (if IsInf xNew 0 then
       (if IsInf xNew 1 then St_Continue (nudge_up x) nIt \<sigma>
        else St_Continue (nudge_down x) nIt \<sigma>)
     else if fgt (Abs (fsub xNew x)) (const64 (1 / 10 ^ 15)) then
       (case \<sigma> ! pm of
          MapCell seen \<Rightarrow>
            (if list_ex (\<lambda>k. feq k xNew) seen then
               (if fne xNew x then St_Continue (fdiv (fadd xNew x) (const64 2)) nIt \<sigma>
                else St_Continue (nudge_up x) nIt \<sigma>)
             else accept_st n nIt xNew (\<sigma>[pm := MapCell (xNew # seen)]))
        | FinderCell _ \<Rightarrow> St_Fault)
     else accept_st n nIt xNew \<sigma>)"

definition after_excess_st ::
  "Finder \<Rightarrow> nat \<Rightarrow> float64 \<Rightarrow> go_int \<Rightarrow> float64 \<Rightarrow> store \<Rightarrow> st_outcome" where
  "after_excess_st n pm x nIt xNew \<sigma> =
    (if IsNaN xNew then St_Return NaN \<sigma>
     else if useHeuristics n then heuristics_st n pm x nIt xNew \<sigma>
     else accept_st n nIt xNew \<sigma>)"

definition round_st :: "nat \<Rightarrow> nat \<Rightarrow> float64 \<Rightarrow> go_int \<Rightarrow> store \<Rightarrow> st_outcome" where
  "round_st pn pm x nIt \<sigma> =
    (if pn < length \<sigma> \<and> pm < length \<sigma> then
       (case \<sigma> ! pn of
          FinderCell n \<Rightarrow>
            (let xNew = method_fn n x (fx n) (dfx n)
             in if \<not> IsInf xNew 0 then
                  (if fgt xNew (xMax n)
                   then St_Continue (fmul (const64 (1 / 2)) (fadd x (xMax n))) nIt \<sigma>
                   else if flt xNew (xMin n)
                   then St_Continue (fmul (const64 (1 / 2)) (fadd x (xMin n))) nIt \<sigma>
                   else after_excess_st n pm x nIt xNew \<sigma>)
                else after_excess_st n pm x nIt xNew \<sigma>)
        | MapCell _ \<Rightarrow> St_Fault)
     else St_Fault)"

partial_function (option) loop_from_st ::
  "nat \<times> nat \<Rightarrow> float64 \<times> go_int \<times> store \<Rightarrow> st_final option" where
  "loop_from_st ptrs st =
    (case round_st (fst ptrs) (snd ptrs) (fst st) (fst (snd st)) (snd (snd st)) of
       St_Return v \<sigma>' \<Rightarrow> Some (Returned v \<sigma>')
     | St_Fault \<Rightarrow> Some Faulted
     | St_Continue x' nIt' \<sigma>' \<Rightarrow> loop_from_st ptrs (x', nIt', \<sigma>'))"

definition loop_st :: "nat \<Rightarrow> float64 \<Rightarrow> store \<Rightarrow> st_final option" where
  "loop_st pn xInit \<sigma> =
    (case alloc (MapCell []) \<sigma> of (pm, \<sigma>') \<Rightarrow> loop_from_st (pn, pm) (xInit, 0, \<sigma>'))"

definition apply_option :: "option_fn \<Rightarrow> nat \<Rightarrow> store \<Rightarrow> store" where
  "apply_option opt pn \<sigma> =
    (if pn < length \<sigma> then
       (case \<sigma> ! pn of FinderCell n \<Rightarrow> \<sigma>[pn := FinderCell (opt n)] | _ \<Rightarrow> \<sigma>)
     else \<sigma>)"

definition Find_st ::
  "func \<Rightarrow> func \<Rightarrow> float64 \<Rightarrow> option_fn list \<Rightarrow> store \<Rightarrow> st_final option" where
  "Find_st f df xInit options \<sigma> =
    (case alloc (FinderCell (new_Finder f df)) \<sigma> of
       (obj, \<sigma>') \<Rightarrow> loop_st obj xInit (foldl (\<lambda>\<tau> option. apply_option option obj \<tau>) \<sigma>' options))"

fun value_of :: "st_final \<Rightarrow> float64 option" where
  "value_of (Returned v \<sigma>) = Some v"
| "value_of Faulted = None"

text \<open>What the proofs say about a store: the \<^verbatim>\<open>Finder\<close> \<open>n\<close> is at \<open>pn\<close> and the map with
  the keys \<open>seen\<close> at \<open>pm\<close>; two stores differ at most in the cell at \<open>pm\<close>; and the
  store in which \<^verbatim>\<open>Find\<close> enters the loop.\<close>

definition holds :: "store \<Rightarrow> nat \<Rightarrow> nat \<Rightarrow> Finder \<Rightarrow> float64 list \<Rightarrow> bool" where
  "holds \<sigma> pn pm n seen \<longleftrightarrow>
     pn < length \<sigma> \<and> pm < length \<sigma> \<and> pn \<noteq> pm \<and> \<sigma> ! pn = FinderCell n \<and> \<sigma> ! pm = MapCell seen"

definition same_but :: "nat \<Rightarrow> store \<Rightarrow> store \<Rightarrow> bool" where
  "same_but pm \<sigma> \<sigma>' \<longleftrightarrow> length \<sigma>' = length \<sigma> \<and> (\<forall>a < length \<sigma>. a \<noteq> pm \<longrightarrow> \<sigma>' ! a = \<sigma> ! a)"

definition start_store :: "func \<Rightarrow> func \<Rightarrow> option_fn list \<Rightarrow> store \<Rightarrow> store" where
  "start_store f df options \<sigma> = \<sigma> @ [FinderCell (configure f df options), MapCell []]"

section \<open>Facts about the model\<close>

subsection \<open>float64\<close>

lemma overflow_threshold_numeral [code]:
  "overflow_threshold = 179769313486231590772930519078902473361797697894230657273430081157732675805500963132708477322407536021120113879871393357658789768814416622492847430639474124377767893424865485276302219601246094119453082952085005768838150682342462881473913110540827237163350510684586298239947245938479716304835356329624224137216"
  by (simp add: overflow_threshold_def)

lemma IsNaN_iff: "IsNaN v \<longleftrightarrow> v = NaN"
  by (cases v) simp_all

lemma flt_NaN_right: "\<not> flt a NaN"
  by (cases a) simp_all

subsection \<open>Go's int\<close>

lemma sint_max64: "sint (w :: 64 word) \<le> 9223372036854775807"
  using sint_lt[of w] by simp

lemma sint_Suc64:
  assumes "sint (w :: 64 word) < 9223372036854775807"
  shows "sint (w + 1) = sint w + 1"
proof -
  have lo: "- (2 ^ 63) \<le> sint w + 1" using sint_ge[of w] by simp
  have hi: "sint w + 1 < 2 ^ 63" using assms by simp
  have "sint (w + 1) = signed_take_bit 63 (sint w + sint (1 :: 64 word))"
    by (simp add: sint_word_add)
  also have "\<dots> = signed_take_bit 63 (sint w + 1)" by simp
  also have "\<dots> = sint w + 1"
    using lo hi by (rule signed_take_bit_int_eq_self)
  finally show ?thesis .
qed

subsection \<open>One round\<close>

lemmas body_defs = loop_body_def after_excess_def heuristics_def accept_def Let_def

lemma loop_body_candidate:
  "loop_body n s = (c, b, out) \<Longrightarrow> c = method_fn n (xcur s) (fx n) (dfx n)"
  by (auto simp: body_defs split: if_splits)

lemma loop_body_Return:
  assumes "loop_body n s = (c, b, Return v)"
  shows "(b = NaNAbort \<and> IsNaN c \<and> v = NaN) \<or>
         (b = Accept Converged \<and> v = c \<and> \<not> IsNaN c \<and>
          word_sle (minIterations n) (nIter s + 1) \<and>
          (flt (Abs (fx n c)) (targetPrecision n) \<or> word_sle (maxIterations n) (nIter s + 1)))"
  using assms by (auto simp: body_defs split: if_splits)

lemma loop_body_Continue:
  assumes "loop_body n s = (c, b, Continue s')"
  shows "(if is_Accept (c, b) then nIter s' = nIter s + 1 \<and> xcur s' = c
          else nIter s' = nIter s \<and> resultLookup s' = resultLookup s)"
  using assms by (auto simp: body_defs split: if_splits)

lemma loop_body_Accept:
  assumes "loop_body n s = (c, Accept cv, out)"
  shows "(cv = NotChecked \<longleftrightarrow> \<not> word_sle (minIterations n) (nIter s + 1)) \<and>
         (cv = Converged \<longleftrightarrow> out = Return c) \<and>
         (cv = Converged \<longleftrightarrow> word_sle (minIterations n) (nIter s + 1) \<and>
          (flt (Abs (fx n c)) (targetPrecision n) \<or> word_sle (maxIterations n) (nIter s + 1)))"
  using assms by (auto simp: body_defs split: if_splits)

subsection \<open>The loop and its runs\<close>

lemma loop_from_Return:
  "snd (snd (loop_body n s)) = Return v \<Longrightarrow> loop_from n s = Some v"
  by (subst loop_from.simps) simp

lemma loop_from_Continue:
  "snd (snd (loop_body n s)) = Continue s' \<Longrightarrow> loop_from n s = loop_from n s'"
  by (subst loop_from.simps) simp

text \<open>A run that ends in a return is a run of the loop, and every returning run of the
  loop is one of these.\<close>

lemma run_Return_loop_from:
  "run k n s = (es, Return v) \<Longrightarrow> loop_from n s = Some v"
proof (induction k arbitrary: s es)
  case 0
  then show ?case by simp
next
  case (Suc k)
  obtain c b out where body: "loop_body n s = (c, b, out)"
    by (cases "loop_body n s") auto
  show ?case
  proof (cases out)
    case (Return w)
    with Suc.prems body have "w = v" by simp
    with body Return show ?thesis by (simp add: loop_from_Return)
  next
    case (Continue s')
    obtain es' out' where r: "run k n s' = (es', out')"
      by (cases "run k n s'") auto
    with Suc.prems body Continue have "out' = Return v" by simp
    with r Suc.IH have "loop_from n s' = Some v" by simp
    with body Continue show ?thesis by (simp add: loop_from_Continue)
  qed
qed

lemma loop_from_run_Return:
  "loop_from n s = Some v \<Longrightarrow> \<exists>k es. run k n s = (es, Return v)"
proof (induction rule: loop_from.raw_induct[where P = "\<lambda>n s v. \<exists>k es. run k n s = (es, Return v)",
      rotated, consumes 1, case_names step])
  case (step lf n s v)
  obtain c b out where body: "loop_body n s = (c, b, out)"
    by (cases "loop_body n s") auto
  show ?case
  proof (cases out)
    case (Return w)
    with step(2) body have "w = v" by simp
    with body Return have "run (Suc 0) n s = ([(c, b)], Return v)" by simp
    then show ?thesis by blast
  next
    case (Continue s')
    with step(2) body have "lf n s' = Some v" by simp
    from step(1)[OF this] obtain k es where "run k n s' = (es, Return v)" by blast
    with body Continue have "run (Suc k) n s = ((c, b) # es, Return v)" by simp
    then show ?thesis by blast
  qed
qed

text \<open>A run of \<open>k + 1\<close> rounds is the first round, followed by a run of \<open>k\<close> rounds
  unless the first round returned.\<close>

lemma run_Suc_cases:
  assumes "run (Suc k) n s = (es, out)"
  obtains (ret) c b v where "loop_body n s = (c, b, Return v)" "es = [(c, b)]" "out = Return v"
  | (cont) c b s' es' where "loop_body n s = (c, b, Continue s')" "run k n s' = (es', out)"
      "es = (c, b) # es'"
proof -
  obtain c b o1 where body: "loop_body n s = (c, b, o1)"
    by (cases "loop_body n s") auto
  show thesis
  proof (cases o1)
    case (Return v)
    with assms body show thesis by (intro ret[of c b v]) auto
  next
    case (Continue s')
    obtain es' out' where r: "run k n s' = (es', out')"
      by (cases "run k n s'") auto
    with assms body Continue show thesis by (intro cont[of c b s' es']) auto
  qed
qed

lemma run_snoc_Continue:
  "run k n s = (es, Continue s') \<Longrightarrow> loop_body n s' = (c, b, out) \<Longrightarrow>
   run (Suc k) n s = (es @ [(c, b)], out)"
proof (induction k arbitrary: s es)
  case 0
  then show ?case by (cases out) auto
next
  case (Suc k)
  from Suc.prems(1) show ?case
  proof (cases rule: run_Suc_cases)
    case (ret c' b' v)
    then show ?thesis by simp
  next
    case (cont c' b' s1 es1)
    from Suc.IH[OF cont(2) Suc.prems(2)] have "run (Suc k) n s1 = (es1 @ [(c, b)], out)" .
    with cont show ?thesis by (simp del: run.simps add: run.simps(2)[of "Suc k"])
  qed
qed

lemma run_Return_last:
  "run k n s = (es, Return v) \<Longrightarrow>
   \<exists>j es0 s' c b. j < k \<and> es = es0 @ [(c, b)] \<and> run j n s = (es0, Continue s') \<and>
     loop_body n s' = (c, b, Return v)"
proof (induction k arbitrary: s es)
  case 0
  then show ?case by simp
next
  case (Suc k)
  from Suc.prems show ?case
  proof (cases rule: run_Suc_cases)
    case (ret c b w)
    then have "es = [] @ [(c, b)] \<and> run 0 n s = ([], Continue s) \<and> loop_body n s = (c, b, Return v)"
      by simp
    then show ?thesis by blast
  next
    case (cont c b s1 es1)
    from Suc.IH[OF cont(2)] obtain j es0 s' c' b' where
      j: "j < k" "es1 = es0 @ [(c', b')]" "run j n s1 = (es0, Continue s')"
         "loop_body n s' = (c', b', Return v)" by blast
    from cont(1) j(3) have "run (Suc j) n s = ((c, b) # es0, Continue s')" by simp
    with j cont(3) have "Suc j < Suc k \<and> es = ((c, b) # es0) @ [(c', b')] \<and>
       run (Suc j) n s = ((c, b) # es0, Continue s') \<and> loop_body n s' = (c', b', Return v)"
      by simp
    then show ?thesis by blast
  qed
qed

lemma run_Return_stable:
  "run k n s = (es, Return v) \<Longrightarrow> k \<le> k' \<Longrightarrow> run k' n s = (es, Return v)"
proof (induction k arbitrary: s es k')
  case 0
  then show ?case by simp
next
  case (Suc k)
  from Suc.prems(2) obtain j where k': "k' = Suc j" "k \<le> j" by (cases k') auto
  from Suc.prems(1) show ?case
  proof (cases rule: run_Suc_cases)
    case (ret c b w)
    then show ?thesis using k' by simp
  next
    case (cont c b s1 es1)
    from Suc.IH[OF cont(2) k'(2)] have "run j n s1 = (es1, Return v)" .
    with cont k' show ?thesis by simp
  qed
qed

lemma run_Return_unique:
  assumes "run k1 n s = (es1, Return v1)" "run k2 n s = (es2, Return v2)"
  shows "es1 = es2 \<and> v1 = v2"
proof -
  have "run (max k1 k2) n s = (es1, Return v1)" using assms(1) by (rule run_Return_stable) simp
  moreover have "run (max k1 k2) n s = (es2, Return v2)" using assms(2) by (rule run_Return_stable) simp
  ultimately show ?thesis by simp
qed

subsection \<open>The iteration counter\<close>

lemma accepted_Cons: "accepted (e # es) = (if is_Accept e then 1 else 0) + accepted es"
  by (simp add: accepted_def)

lemma accepted_append: "accepted (es @ es') = accepted es + accepted es'"
  by (simp add: accepted_def)

lemma accepted_Nil: "accepted [] = 0"
  by (simp add: accepted_def)

text \<open>The counter does not wrap: a round that leaves the counter at the largest int
  passes both tests of the convergence check and returns.\<close>

lemma loop_body_counter:
  assumes "loop_body n s = (c, b, Continue s')" and "sint (nIter s) < 9223372036854775807"
  shows "sint (nIter s') = sint (nIter s) + (if is_Accept (c, b) then 1 else 0) \<and>
         sint (nIter s') < 9223372036854775807"
proof (cases "is_Accept (c, b)")
  case False
  with loop_body_Continue[OF assms(1)] assms(2) show ?thesis by simp
next
  case True
  then obtain cv where b: "b = Accept cv" by (cases b) auto
  from loop_body_Continue[OF assms(1)] True have n': "nIter s' = nIter s + 1" by simp
  from sint_Suc64[OF assms(2)] n' have eq: "sint (nIter s') = sint (nIter s) + 1" by simp
  have "cv \<noteq> Converged" using loop_body_Accept[of n s c cv "Continue s'"] assms(1) b by auto
  with loop_body_Accept[of n s c cv "Continue s'"] assms(1) b
  have nc: "\<not> (word_sle (minIterations n) (nIter s') \<and> word_sle (maxIterations n) (nIter s'))"
    using n' by auto
  have "sint (nIter s') \<noteq> 9223372036854775807"
  proof
    assume top: "sint (nIter s') = 9223372036854775807"
    have "sint (minIterations n) \<le> sint (nIter s')" "sint (maxIterations n) \<le> sint (nIter s')"
      using sint_max64[of "minIterations n"] sint_max64[of "maxIterations n"] top by simp_all
    with nc show False by (simp add: word_sle_eq)
  qed
  with sint_max64[of "nIter s'"] eq True show ?thesis by simp
qed

lemma run_counter:
  "run k n s = (es, Continue s') \<Longrightarrow> sint (nIter s) < 9223372036854775807 \<Longrightarrow>
   sint (nIter s') = sint (nIter s) + int (accepted es) \<and> sint (nIter s') < 9223372036854775807"
proof (induction k arbitrary: s es)
  case 0
  then show ?case by (simp add: accepted_Nil)
next
  case (Suc k)
  from Suc.prems(1) show ?case
  proof (cases rule: run_Suc_cases)
    case (ret c b v)
    then show ?thesis by simp
  next
    case (cont c b s1 es1)
    from loop_body_counter[OF cont(1) Suc.prems(2)]
    have s1: "sint (nIter s1) = sint (nIter s) + (if is_Accept (c, b) then 1 else 0)"
             "sint (nIter s1) < 9223372036854775807" by simp_all
    from Suc.IH[OF cont(2) s1(2)] s1(1) cont(3) show ?thesis
      by (simp add: accepted_Cons)
  qed
qed

lemma run_init_counter:
  assumes "run k n (loop_init xInit) = (es, Continue s)"
  shows "sint (nIter s) = int (accepted es)" "sint (nIter s) < 9223372036854775807"
  using run_counter[OF assms] by (simp_all add: loop_init_def)

text \<open>An accepting round skips the convergence test exactly when the counter it
  leaves is below \<^verbatim>\<open>minIterations\<close>.\<close>

lemma run_conv_flag:
  "run k n s = (es1 @ (c, Accept cv) # es2, out) \<Longrightarrow> sint (nIter s) < 9223372036854775807 \<Longrightarrow>
   (cv = NotChecked \<longleftrightarrow> sint (nIter s) + int (accepted es1) + 1 < sint (minIterations n))"
proof (induction es1 arbitrary: k s)
  case Nil
  from Nil.prems(1) obtain k' where k: "k = Suc k'" by (cases k) auto
  from Nil.prems(1)[unfolded k] have "\<exists>o1. loop_body n s = (c, Accept cv, o1)"
    by (cases rule: run_Suc_cases) auto
  then obtain o1 where "loop_body n s = (c, Accept cv, o1)" ..
  from loop_body_Accept[OF this] sint_Suc64[OF Nil.prems(2)] show ?case
    by (auto simp: word_sle_eq accepted_Nil)
next
  case (Cons e es1)
  from Cons.prems(1) obtain k' where k: "k = Suc k'" by (cases k) auto
  from Cons.prems(1)[unfolded k] show ?case
  proof (cases rule: run_Suc_cases)
    case (ret c' b' v)
    then show ?thesis by simp
  next
    case (cont c' b' s1 es')
    then have e: "e = (c', b')" and es': "es' = es1 @ (c, Accept cv) # es2" by simp_all
    from loop_body_counter[OF cont(1) Cons.prems(2)]
    have s1: "sint (nIter s1) = sint (nIter s) + (if is_Accept e then 1 else 0)"
             "sint (nIter s1) < 9223372036854775807" by (simp_all add: e)
    from Cons.IH[OF cont(2)[unfolded es'] s1(2)] s1(1) show ?thesis
      by (simp add: accepted_Cons)
  qed
qed

subsection \<open>A concrete run\<close>

text \<open>\<^verbatim>\<open>Find\<close> with the default configuration on the constant function 0 with derivative
  1, from 0: every Newton-Raphson candidate is 0, five candidates are accepted, and the
  fifth passes the convergence test.\<close>

lemma c1e9: "const64 (1 / 10 ^ 9) = Fin (4835703278458517 / 2 ^ 82)"
  by code_simp

lemma c1e9_pos: "flt (Fin 0) (const64 (1 / 1000000000))"
  using c1e9 by simp

lemma configure_Nil: "configure f df [] = new_Finder f df"
  by (simp add: configure_def)

lemma NR0: "NewtonRaphson (Fin 0) (\<lambda>_. Fin 0) (\<lambda>_. Fin 1) = Fin 0"
  by (simp add: NewtonRaphson_def fsub_def fdiv_def IsInf_def zero_of_def)

lemma bounds0: "\<not> fgt (Fin 0) MaxFloat64" "\<not> flt (Fin 0) (fneg MaxFloat64)"
  by (simp_all add: fgt_def MaxFloat64_def)

lemma body0:
  "loop_body (new_Finder (\<lambda>_. Fin 0) (\<lambda>_. Fin 1)) \<lparr>xcur = Fin 0, nIter = i, resultLookup = []\<rparr>
   = (if word_sle 5 (i + 1) then (Fin 0, Accept Converged, Return (Fin 0))
      else (Fin 0, Accept NotChecked,
            Continue \<lparr>xcur = Fin 0, nIter = i + 1, resultLookup = []\<rparr>))"
  by (simp add: body_defs new_Finder_def NR0 bounds0 IsInf_def c1e9_pos)

lemma run0_5:
  "run 5 (configure (\<lambda>_. Fin 0) (\<lambda>_. Fin 1) []) (loop_init (Fin 0))
   = ([(Fin 0, Accept NotChecked), (Fin 0, Accept NotChecked), (Fin 0, Accept NotChecked),
       (Fin 0, Accept NotChecked), (Fin 0, Accept Converged)], Return (Fin 0))"
  by (simp add: eval_nat_numeral configure_Nil loop_init_def body0 word_sle_eq)

lemma run0_7:
  "run 7 (configure (\<lambda>_. Fin 0) (\<lambda>_. Fin 1) []) (loop_init (Fin 0))
   = ([(Fin 0, Accept NotChecked), (Fin 0, Accept NotChecked), (Fin 0, Accept NotChecked),
       (Fin 0, Accept NotChecked), (Fin 0, Accept Converged)], Return (Fin 0))"
  by (rule run_Return_stable[OF run0_5]) simp

lemma run0_1:
  "run 1 (configure (\<lambda>_. Fin 0) (\<lambda>_. Fin 1) []) (loop_init (Fin 0))
   = ([(Fin 0, Accept NotChecked)], Continue \<lparr>xcur = Fin 0, nIter = 1, resultLookup = []\<rparr>)"
  by (simp add: configure_Nil loop_init_def body0 word_sle_eq)

lemma body0_1:
  "loop_body (configure (\<lambda>_. Fin 0) (\<lambda>_. Fin 1) [])
     \<lparr>xcur = Fin 0, nIter = 1, resultLookup = []\<rparr>
   = (Fin 0, Accept NotChecked, Continue \<lparr>xcur = Fin 0, nIter = 2, resultLookup = []\<rparr>)"
  by (simp add: configure_Nil body0 word_sle_eq)

lemma Find0: "Find (\<lambda>_. Fin 0) (\<lambda>_. Fin 1) (Fin 0) [] = Some (Fin 0)"
  unfolding Find_def loop_def by (rule run_Return_loop_from[OF run0_5])

text \<open>The same call on a function that is NaN everywhere: the first candidate is NaN.\<close>

lemma runN_0:
  "run 0 (configure (\<lambda>_. NaN) (\<lambda>_. Fin 1) []) (loop_init (Fin 0))
   = ([], Continue (loop_init (Fin 0)))"
  by simp

lemma candN:
  "IsNaN (method_fn (configure (\<lambda>_. NaN) (\<lambda>_. Fin 1) []) (xcur (loop_init (Fin 0)))
      (fx (configure (\<lambda>_. NaN) (\<lambda>_. Fin 1) [])) (dfx (configure (\<lambda>_. NaN) (\<lambda>_. Fin 1) [])))"
  by (simp add: configure_Nil new_Finder_def NewtonRaphson_def fsub_def fdiv_def loop_init_def)

text \<open>\<^verbatim>\<open>Find\<close> with the default configuration on \<open>x\<^sup>2 - 612\<close> from 10: six Newton-Raphson
  steps, each computed in binary64 arithmetic; the sixth candidate is the \<^verbatim>\<open>float64\<close>
  nearest to the square root of 612 and passes the convergence test.\<close>

lemma NR_612:
  "NewtonRaphson (Fin 10) f612 df612 = Fin (5010254585449677 / 140737488355328)"
  "NewtonRaphson (Fin (5010254585449677 / 140737488355328)) f612 df612
     = Fin (3714837164543107 / 140737488355328)"
  "NewtonRaphson (Fin (3714837164543107 / 140737488355328)) f612 df612
     = Fin (6977943547881267 / 281474976710656)"
  "NewtonRaphson (Fin (6977943547881267 / 281474976710656)) f612 df612
     = Fin (3481660855713515 / 140737488355328)"
  "NewtonRaphson (Fin (3481660855713515 / 140737488355328)) f612 df612
     = Fin (6963306359694757 / 281474976710656)"
  "NewtonRaphson (Fin (6963306359694757 / 281474976710656)) f612 df612
     = Fin (3481653179838917 / 140737488355328)"
  by code_simp+

lemma conv_612:
  "\<not> flt (Abs (f612 (Fin (6963306359694757 / 281474976710656)))) (const64 (1 / 1000000000))"
  "flt (Abs (f612 (Fin (3481653179838917 / 140737488355328)))) (const64 (1 / 1000000000))"
  by code_simp+

lemma within_default_limits:
  assumes "\<bar>q\<bar> \<le> 1000"
  shows "\<not> fgt (Fin q) MaxFloat64 \<and> \<not> flt (Fin q) (fneg MaxFloat64)"
proof -
  define m :: rat where "m = (2 ^ 53 - 1) * 2 ^ 971"
  have "1000 < m" by (simp add: m_def)
  with assms have "\<not> m < q" "\<not> q < - m" by linarith+
  moreover have "m \<noteq> 0" using \<open>1000 < m\<close> by simp
  moreover have M: "MaxFloat64 = Fin m" by (simp only: MaxFloat64_def m_def)
  ultimately show ?thesis unfolding M by (simp add: fgt_def)
qed

lemma run_612:
  "run 6 (configure f612 df612 []) (loop_init (Fin 10))
   = ([(Fin (5010254585449677 / 140737488355328), Accept NotChecked),
       (Fin (3714837164543107 / 140737488355328), Accept NotChecked),
       (Fin (6977943547881267 / 281474976710656), Accept NotChecked),
       (Fin (3481660855713515 / 140737488355328), Accept NotChecked),
       (Fin (6963306359694757 / 281474976710656), Accept NotConverged),
       (Fin (3481653179838917 / 140737488355328), Accept Converged)],
      Return (Fin (3481653179838917 / 140737488355328)))"
  by (simp add: eval_nat_numeral configure_Nil new_Finder_def loop_init_def body_defs
      NR_612 conv_612 within_default_limits IsInf_def word_sle_eq)

lemma Find_612:
  "Find f612 df612 (Fin 10) [] = Some (Fin (3481653179838917 / 140737488355328))"
  unfolding Find_def loop_def by (rule run_Return_loop_from[OF run_612])

section \<open>The claims about Find\<close>

text \<open>
  Claim C1. Whenever \<^verbatim>\<open>Find\<close> returns a value \<open>v\<close> that is not NaN, for every \<open>fx\<close>,
  \<open>dfx\<close>, initial value and option list: the run of the loop ends with a round that
  accepts the candidate \<open>v\<close> and returns it, so \<open>v\<close> is the most recently accepted
  iterate; the number of accepted steps at the return is at least \<^verbatim>\<open>minIterations\<close>;
  at that point \<open>|fx(v)| < targetPrecision\<close> or the number of accepted steps is at least
  \<^verbatim>\<open>maxIterations\<close>; and every accepting round of the run after which the number of
  accepted steps is still below \<^verbatim>\<open>minIterations\<close> skipped the convergence test.
\<close>

theorem Find_returns_converged_iterate:
  fixes f df :: func and options :: "option_fn list"
  defines "n \<equiv> configure f df options"
  assumes ret: "Find f df xInit options = Some v" and nn: "\<not> IsNaN v"
  shows "\<exists>k es. run k n (loop_init xInit) = (es @ [(v, Accept Converged)], Return v)
     \<and> sint (minIterations n) \<le> int (accepted (es @ [(v, Accept Converged)]))
     \<and> (flt (Abs (fx n v)) (targetPrecision n)
         \<or> sint (maxIterations n) \<le> int (accepted (es @ [(v, Accept Converged)])))
     \<and> (\<forall>es1 c cv es2. es @ [(v, Accept Converged)] = es1 @ (c, Accept cv) # es2
           \<and> int (accepted (es1 @ [(c, Accept cv)])) < sint (minIterations n)
         \<longrightarrow> cv = NotChecked)"
proof -
  from ret have "loop_from n (loop_init xInit) = Some v"
    by (simp add: Find_def loop_def n_def)
  then obtain k es0 where r: "run k n (loop_init xInit) = (es0, Return v)"
    using loop_from_run_Return by blast
  from run_Return_last[OF r] obtain j es s c b where
    d: "es0 = es @ [(c, b)]" "run j n (loop_init xInit) = (es, Continue s)"
       "loop_body n s = (c, b, Return v)" by blast
  from loop_body_Return[OF d(3)] nn have
    b: "b = Accept Converged" and c: "c = v"
    and mn: "word_sle (minIterations n) (nIter s + 1)"
    and cv: "flt (Abs (fx n v)) (targetPrecision n) \<or> word_sle (maxIterations n) (nIter s + 1)"
    by (auto simp: IsNaN_iff)
  from run_init_counter[OF d(2)] have
    cnt: "sint (nIter s) = int (accepted es)" and lt: "sint (nIter s) < 9223372036854775807"
    by simp_all
  have fin: "sint (nIter s + 1) = int (accepted (es @ [(v, Accept Converged)]))"
    using sint_Suc64[OF lt] cnt by (simp add: accepted_append accepted_Cons accepted_Nil)
  have r': "run k n (loop_init xInit) = (es @ [(v, Accept Converged)], Return v)"
    using r d(1) b c by simp
  have init: "sint (nIter (loop_init xInit)) < 9223372036854775807"
    by (simp add: loop_init_def)
  have flag: "cv' = NotChecked"
    if "es @ [(v, Accept Converged)] = es1 @ (c', Accept cv') # es2"
      and "int (accepted (es1 @ [(c', Accept cv')])) < sint (minIterations n)"
    for es1 c' cv' es2
    using run_conv_flag[OF r'[unfolded that(1)] init] that(2)
    by (simp add: loop_init_def accepted_append accepted_Cons accepted_Nil)
  from r' mn cv fin flag show ?thesis
    by (intro exI[of _ k] exI[of _ es]) (auto simp: word_sle_eq)
qed

theorem Find_returns_converged_iterate_witness:
  "Find f612 df612 (Fin 10) [] = Some (Fin (3481653179838917 / 140737488355328))
   \<and> \<not> IsNaN (Fin (3481653179838917 / 140737488355328))
   \<and> (\<exists>k es. run k (configure f612 df612 []) (loop_init (Fin 10))
          = (es @ [(Fin (3481653179838917 / 140737488355328), Accept Converged)],
             Return (Fin (3481653179838917 / 140737488355328)))
        \<and> sint (minIterations (configure f612 df612 []))
            \<le> int (accepted (es @ [(Fin (3481653179838917 / 140737488355328), Accept Converged)]))
        \<and> (flt (Abs (fx (configure f612 df612 []) (Fin (3481653179838917 / 140737488355328))))
              (targetPrecision (configure f612 df612 []))
           \<or> sint (maxIterations (configure f612 df612 []))
              \<le> int (accepted (es @ [(Fin (3481653179838917 / 140737488355328), Accept Converged)]))))"
proof -
  have nn: "\<not> IsNaN (Fin (3481653179838917 / 140737488355328))" by simp
  from Find_returns_converged_iterate[OF Find_612 nn] Find_612 nn show ?thesis
    by blast
qed

text \<open>
  Claim C2. In every execution of the loop, at the state reached after any number of
  rounds, the iteration counter equals the number of accepted steps so far. In the next
  round: on each retry path (upper or lower bound clamp, infinity recovery, cycle
  bisection, stationary nudge) the round restarts with the counter unchanged; when the
  candidate is accepted the counter is incremented, without wrapping, and again equals
  the number of accepted steps; the only other path is the NaN abort, which returns.
\<close>

theorem counter_counts_accepted_steps:
  assumes r: "run k n (loop_init xInit) = (es, Continue s)"
      and body: "loop_body n s = (c, b, out)"
  shows "sint (nIter s) = int (accepted es)
       \<and> (b \<in> {UpperExcess, LowerExcess, InfRecovery, CycleBisect, StationaryNudge}
            \<longrightarrow> (\<exists>s'. out = Continue s' \<and> nIter s' = nIter s))
       \<and> (\<forall>cv. b = Accept cv \<longrightarrow>
              sint (nIter s + 1) = int (accepted (es @ [(c, b)]))
            \<and> (\<forall>s'. out = Continue s' \<longrightarrow> nIter s' = nIter s + 1))
       \<and> (b = NaNAbort \<longrightarrow> out = Return NaN)"
proof -
  from run_init_counter[OF r] have
    cnt: "sint (nIter s) = int (accepted es)" and lt: "sint (nIter s) < 9223372036854775807"
    by simp_all
  have retry: "\<exists>s'. out = Continue s' \<and> nIter s' = nIter s"
    if "b \<in> {UpperExcess, LowerExcess, InfRecovery, CycleBisect, StationaryNudge}"
  proof (cases out)
    case (Return v)
    with loop_body_Return[of n s c b v] body that show ?thesis by auto
  next
    case (Continue s')
    with loop_body_Continue[of n s c b s'] body that show ?thesis by auto
  qed
  have acc: "sint (nIter s + 1) = int (accepted (es @ [(c, b)]))
            \<and> (\<forall>s'. out = Continue s' \<longrightarrow> nIter s' = nIter s + 1)" if "b = Accept cv" for cv
  proof -
    have "sint (nIter s + 1) = int (accepted (es @ [(c, b)]))"
      using sint_Suc64[OF lt] cnt that by (simp add: accepted_append accepted_Cons accepted_Nil)
    moreover have "nIter s' = nIter s + 1" if "out = Continue s'" for s'
      using loop_body_Continue[of n s c b s'] body that \<open>b = Accept cv\<close> by simp
    ultimately show ?thesis by blast
  qed
  have nan: "out = Return NaN" if "b = NaNAbort"
    using body that by (auto simp: body_defs split: if_splits)
  from cnt retry acc nan show ?thesis by blast
qed

theorem counter_counts_accepted_steps_witness:
  "run 1 (configure (\<lambda>_. Fin 0) (\<lambda>_. Fin 1) []) (loop_init (Fin 0))
     = ([(Fin 0, Accept NotChecked)], Continue \<lparr>xcur = Fin 0, nIter = 1, resultLookup = []\<rparr>)
   \<and> loop_body (configure (\<lambda>_. Fin 0) (\<lambda>_. Fin 1) [])
        \<lparr>xcur = Fin 0, nIter = 1, resultLookup = []\<rparr>
     = (Fin 0, Accept NotChecked, Continue \<lparr>xcur = Fin 0, nIter = 2, resultLookup = []\<rparr>)
   \<and> sint (nIter \<lparr>xcur = Fin 0, nIter = 1, resultLookup = []\<rparr>)
       = int (accepted [(Fin 0, Accept NotChecked)])
   \<and> sint (nIter \<lparr>xcur = Fin 0, nIter = 1, resultLookup = []\<rparr> + 1)
       = int (accepted ([(Fin 0, Accept NotChecked)] @ [(Fin 0, Accept NotChecked)]))"
  using counter_counts_accepted_steps[OF run0_1 body0_1] run0_1 body0_1 by simp

text \<open>
  Claim C3. For every \<open>fx\<close>, \<open>dfx\<close>, initial value and option list: if at the state
  reached after some number of rounds the stepping strategy produces NaN as the
  candidate, then that round takes the NaN abort and returns NaN, whatever the setting
  \<open>h\<close> of the heuristics; it is the last round of the run (no retry follows), and
  \<^verbatim>\<open>Find\<close> returns NaN.
\<close>

theorem NaN_candidate_aborts:
  fixes f df :: func and options :: "option_fn list"
  defines "n \<equiv> configure f df options"
  assumes r: "run k n (loop_init xInit) = (es, Continue s)"
      and nan: "IsNaN (method_fn n (xcur s) (fx n) (dfx n))"
  shows "loop_body n s = (NaN, NaNAbort, Return NaN)
       \<and> loop_body (n\<lparr>useHeuristics := h\<rparr>) s = (NaN, NaNAbort, Return NaN)
       \<and> run (Suc k) n (loop_init xInit) = (es @ [(NaN, NaNAbort)], Return NaN)
       \<and> Find f df xInit options = Some NaN"
proof -
  from nan have c: "method_fn n (xcur s) (fx n) (dfx n) = NaN" by (simp add: IsNaN_iff)
  have body: "loop_body n s = (NaN, NaNAbort, Return NaN)"
    by (simp add: loop_body_def after_excess_def c IsInf_def fgt_def flt_NaN_right)
  have body': "loop_body (n\<lparr>useHeuristics := h\<rparr>) s = (NaN, NaNAbort, Return NaN)"
    by (simp add: loop_body_def after_excess_def c IsInf_def fgt_def flt_NaN_right)
  from run_snoc_Continue[OF r body]
  have r': "run (Suc k) n (loop_init xInit) = (es @ [(NaN, NaNAbort)], Return NaN)" .
  from run_Return_loop_from[OF r'] have "Find f df xInit options = Some NaN"
    by (simp add: Find_def loop_def n_def)
  with body body' r' show ?thesis by simp
qed

theorem NaN_candidate_aborts_witness:
  "run 0 (configure (\<lambda>_. NaN) (\<lambda>_. Fin 1) []) (loop_init (Fin 0))
     = ([], Continue (loop_init (Fin 0)))
   \<and> IsNaN (NewtonRaphson (Fin 0) (\<lambda>_. NaN) (\<lambda>_. Fin 1))
   \<and> Find (\<lambda>_. NaN) (\<lambda>_. Fin 1) (Fin 0) [] = Some NaN"
  using NaN_candidate_aborts[OF runN_0 candN] candN
  by (simp add: configure_Nil new_Finder_def loop_init_def)

section \<open>Bounds, infinities and cycles\<close>

subsection \<open>More facts about float64\<close>

lemma c_zero: "const64 0 = Fin 0"
  by (simp add: const64_def)

lemma c_two: "const64 2 = Fin 2"
  by code_simp


lemma c1e15: "const64 (1 / 10 ^ 15) = Fin (2535301200456459 / 2 ^ 101)"
  by code_simp

lemma c1e15_lt_1: "fgt (Fin 1) (const64 (1 / 1000000000000000))"
  using c1e15 by (simp add: fgt_def)

lemma IsInf_cases:
  "IsInf c 0 \<longleftrightarrow> c = PInf \<or> c = NInf" "IsInf c 1 \<longleftrightarrow> c = PInf" "IsInf c (- 1) \<longleftrightarrow> c = NInf"
  by (auto simp: IsInf_def)

lemma feq_zero: "feq d (Fin 0) \<longleftrightarrow> is_zero d"
  by (cases d) simp_all

lemma fadd_NaN_right: "fadd a NaN = NaN"
  by (cases a) simp_all

lemma fsub_NaN_right: "fsub a NaN = NaN"
  by (simp add: fsub_def fadd_NaN_right)




lemma fle_not_fgt: "fle a b \<Longrightarrow> \<not> fgt a b"
  by (cases a; cases b) (auto simp: fle_def fgt_def)

lemma fle_not_flt: "fle a b \<Longrightarrow> \<not> flt b a"
  by (cases a; cases b) (auto simp: fle_def)

text \<open>Division by a zero and subtraction of an infinity.\<close>

lemma fdiv_by_zero:
  assumes "is_zero d"
  shows "fdiv y d = (if IsNaN y \<or> is_zero y then NaN else inf_of (signbit y \<noteq> signbit d))"
  using assms by (cases d; cases y) (simp_all add: fdiv_def IsInf_cases)

lemma fsub_inf:
  "fsub x (inf_of sg) = (if IsNaN x \<or> x = inf_of sg then NaN else inf_of (\<not> sg))"
  by (cases x; cases sg) (simp_all add: fsub_def inf_of_def)

lemma feq_inf: "feq x (inf_of sg) \<longleftrightarrow> x = inf_of sg"
  by (cases x; cases sg) (auto simp: inf_of_def)

lemma IsInf_inf_of: "IsInf (inf_of sg) 0" "\<not> IsNaN (inf_of sg)"
  by (simp_all add: inf_of_def IsInf_def)

subsection \<open>Accepted candidates and the bounds\<close>



subsection \<open>The nudge of the cycle detection\<close>

text \<open>When the candidate equals \<open>x\<close>, their difference is a zero or, for two equal
  infinities, a NaN; its absolute value is not above \<open>1e-15\<close>.\<close>

lemma feq_small_step:
  assumes "feq c x"
  shows "\<not> fgt (Abs (fsub c x)) (const64 (1 / 10 ^ 15))"
proof -
  have pos: "const64 (1 / 10 ^ 15) = Fin (2535301200456459 / 2 ^ 101)" by (rule c1e15)
  from assms have "Abs (fsub c x) = NaN \<or> Abs (fsub c x) = Fin 0"
    by (cases c; cases x) (auto simp: fsub_def zero_of_def)
  then show ?thesis unfolding pos by (auto simp: fgt_def)
qed

text \<open>So the nudge inside the cycle detection, which needs \<open>|candidate - x| > 1e-15\<close>
  and \<open>candidate == x\<close> together, is taken in no round.\<close>

lemma StationaryNudge_unreachable: "loop_body n s \<noteq> (c, StationaryNudge, out)"
proof
  assume body: "loop_body n s = (c, StationaryNudge, out)"
  have c: "c = method_fn n (xcur s) (fx n) (dfx n)" using body by (rule loop_body_candidate)
  from body have "fgt (Abs (fsub c (xcur s))) (const64 (1 / 10 ^ 15)) \<and> \<not> fne c (xcur s)"
    unfolding c
    by (auto simp: loop_body_def after_excess_def heuristics_def accept_def Let_def
        split: if_splits simp del: power_numeral)
  then show False using feq_small_step[of c "xcur s"] by (simp add: fne_def)
qed

subsection \<open>Concrete rounds\<close>

lemma configure_single: "configure f df [opt] = opt (new_Finder f df)"
  by (simp add: configure_def)












text \<open>\<open>x\<^sup>3 - 2x + 2\<close> from 0 with heuristics: 1 and 0 are accepted and stored, then 1 comes
  again.\<close>

lemma NR_cubic: "NewtonRaphson (Fin 0) cubic dcubic = Fin 1"
  "NewtonRaphson (Fin 1) cubic dcubic = Fin 0"
  by code_simp+

lemma abs10: "Abs (fsub (Fin 1) (Fin 0)) = Fin 1" "Abs (fsub (Fin 0) (Fin 1)) = Fin 1"
  by code_simp+

lemma bounds01:
  "\<not> fgt (Fin 1) MaxFloat64" "\<not> flt (Fin 1) (fneg MaxFloat64)"
  "fle (fneg MaxFloat64) (Fin 1)" "fle (Fin 1) MaxFloat64"
  by (simp_all add: fgt_def fle_def MaxFloat64_def)

lemma run_cycle:
  "run 2 (configure cubic dcubic [WithHeuristics]) (loop_init (Fin 0))
   = ([(Fin 1, Accept NotChecked), (Fin 0, Accept NotChecked)],
      Continue \<lparr>xcur = Fin 0, nIter = 2, resultLookup = [Fin 0, Fin 1]\<rparr>)"
  by (simp add: eval_nat_numeral configure_single WithHeuristics_def new_Finder_def loop_init_def
      body_defs NR_cubic bounds0 bounds01 IsInf_def abs10 c1e15_lt_1 word_sle_eq)

lemma body_cycle:
  "loop_body (configure cubic dcubic [WithHeuristics])
      \<lparr>xcur = Fin 0, nIter = 2, resultLookup = [Fin 0, Fin 1]\<rparr>
   = (Fin 1, CycleBisect,
      Continue (\<lparr>xcur = Fin 0, nIter = 2, resultLookup = [Fin 0, Fin 1]\<rparr>
                 \<lparr>xcur := fdiv (fadd (Fin 1) (Fin 0)) (const64 2)\<rparr>))"
  by (simp add: configure_single WithHeuristics_def new_Finder_def
      body_defs NR_cubic bounds01 IsInf_def abs10 c1e15_lt_1 fne_def)






text \<open>The branches of the cycle detection. In a round with heuristics enabled, for a
  finite candidate within the limits: when \<open>|candidate - x| > 1e-15\<close> and the candidate is
  already in the seen-values map, \<open>x\<close> becomes \<open>(candidate + x)/2\<close> and the round restarts
  with the counter unchanged; when \<open>|candidate - x| > 1e-15\<close> and the candidate is not in
  the map, it is stored in the map and then accepted; when \<open>|candidate - x| \<le> 1e-15\<close>
  the candidate is accepted directly, the map left as it is.\<close>

lemma cycle_detection_branches:
  assumes h: "useHeuristics n" and body: "loop_body n s = (c, b, out)"
      and fin: "\<not> IsNaN c" "\<not> IsInf c 0"
      and inb: "fle (xMin n) c" "fle c (xMax n)"
  shows "(fgt (Abs (fsub c (xcur s))) (const64 (1 / 10 ^ 15)) \<longrightarrow>
            (list_ex (\<lambda>k. feq k c) (resultLookup s) \<longrightarrow>
               fne c (xcur s) \<and> b = CycleBisect
                  \<and> out = Continue (s\<lparr>xcur := fdiv (fadd c (xcur s)) (const64 2)\<rparr>))
          \<and> (\<not> list_ex (\<lambda>k. feq k c) (resultLookup s) \<longrightarrow>
               (c, b, out) = accept n s c (c # resultLookup s)
             \<and> (\<exists>cv. b = Accept cv)
             \<and> (\<forall>s'. out = Continue s' \<longrightarrow>
                   s' = \<lparr>xcur = c, nIter = nIter s + 1, resultLookup = c # resultLookup s\<rparr>)))
       \<and> (fle (Abs (fsub c (xcur s))) (const64 (1 / 10 ^ 15)) \<longrightarrow>
            (c, b, out) = accept n s c (resultLookup s)
          \<and> (\<exists>cv. b = Accept cv)
          \<and> (\<forall>s'. out = Continue s' \<longrightarrow>
                s' = \<lparr>xcur = c, nIter = nIter s + 1, resultLookup = resultLookup s\<rparr>))"
proof -
  from inb have nb: "\<not> fgt c (xMax n)" "\<not> flt c (xMin n)"
    by (simp_all add: fle_not_fgt fle_not_flt)
  have c: "c = method_fn n (xcur s) (fx n) (dfx n)" using body by (rule loop_body_candidate)
  have eq: "(c, b, out) = heuristics n s c"
    using body h fin nb unfolding c by (simp add: loop_body_def after_excess_def Let_def)
  have acc: "(\<exists>cv. b = Accept cv)
      \<and> (\<forall>s'. out = Continue s' \<longrightarrow> s' = \<lparr>xcur = c, nIter = nIter s + 1, resultLookup = seen\<rparr>)"
    if "(c, b, out) = accept n s c seen" for seen
    using that by (auto simp: accept_def Let_def split: if_splits)
  have ne: "fne c (xcur s)" if "fgt (Abs (fsub c (xcur s))) (const64 (1 / 10 ^ 15))"
    using that feq_small_step[of c "xcur s"] by (auto simp: fne_def)
  have heur: "(fgt (Abs (fsub c (xcur s))) (const64 (1 / 10 ^ 15)) \<longrightarrow>
            (list_ex (\<lambda>k. feq k c) (resultLookup s) \<longrightarrow>
               b = CycleBisect
                  \<and> out = Continue (s\<lparr>xcur := fdiv (fadd c (xcur s)) (const64 2)\<rparr>))
          \<and> (\<not> list_ex (\<lambda>k. feq k c) (resultLookup s) \<longrightarrow>
               (c, b, out) = accept n s c (c # resultLookup s)))
       \<and> (fle (Abs (fsub c (xcur s))) (const64 (1 / 10 ^ 15)) \<longrightarrow>
            (c, b, out) = accept n s c (resultLookup s))"
    using eq fin ne fle_not_fgt[of "Abs (fsub c (xcur s))" "const64 (1 / 10 ^ 15)"]
    by (auto simp: heuristics_def simp del: power_numeral)
  from heur ne acc[of "c # resultLookup s"] acc[of "resultLookup s"] show ?thesis
    by blast
qed

lemma cycle_detection_example:
  "useHeuristics (configure cubic dcubic [WithHeuristics])
   \<and> run 2 (configure cubic dcubic [WithHeuristics]) (loop_init (Fin 0))
     = ([(Fin 1, Accept NotChecked), (Fin 0, Accept NotChecked)],
        Continue \<lparr>xcur = Fin 0, nIter = 2, resultLookup = [Fin 0, Fin 1]\<rparr>)
   \<and> fgt (Abs (fsub (Fin 1) (Fin 0))) (const64 (1 / 10 ^ 15))
   \<and> list_ex (\<lambda>k. feq k (Fin 1)) [Fin 0, Fin 1]
   \<and> fne (Fin 1) (Fin 0)
   \<and> loop_body (configure cubic dcubic [WithHeuristics])
        \<lparr>xcur = Fin 0, nIter = 2, resultLookup = [Fin 0, Fin 1]\<rparr>
     = (Fin 1, CycleBisect,
        Continue (\<lparr>xcur = Fin 0, nIter = 2, resultLookup = [Fin 0, Fin 1]\<rparr>
                   \<lparr>xcur := fdiv (fadd (Fin 1) (Fin 0)) (const64 2)\<rparr>))"
proof -
  have h: "useHeuristics (configure cubic dcubic [WithHeuristics])"
    by (simp add: configure_single WithHeuristics_def)
  have fin: "\<not> IsNaN (Fin 1)" "\<not> IsInf (Fin 1) 0"
    by (simp_all add: IsInf_def)
  have inb: "fle (xMin (configure cubic dcubic [WithHeuristics])) (Fin 1)"
    "fle (Fin 1) (xMax (configure cubic dcubic [WithHeuristics]))"
    by (simp_all add: configure_single WithHeuristics_def new_Finder_def bounds01)
  from cycle_detection_branches[OF h body_cycle fin inb] h run_cycle body_cycle show ?thesis
    by (simp add: abs10 c1e15_lt_1 fne_def)
qed

text \<open>\<open>x - 1\<close> from 0 with heuristics: the first candidate is the root 1, which is stored
  and accepted; from then on the candidate is 1 again, equal to \<open>x\<close> and in the map.\<close>

lemma NR_lin1:
  "NewtonRaphson (Fin 0) lin1 (const_fn (Fin 1)) = Fin 1"
  "NewtonRaphson (Fin 1) lin1 (const_fn (Fin 1)) = Fin 1"
  by code_simp+

lemma abs_lin1: "Abs (fsub (Fin 1) (Fin 1)) = Fin 0" "lin1 (Fin 1) = Fin 0"
  by code_simp+

lemma c1e15_gt_0: "\<not> fgt (Fin 0) (const64 (1 / 1000000000000000))"
  using c1e15 by (simp add: fgt_def)




section \<open>The stepping strategies\<close>

lemma sq0: "square (Fin 0) = Fin 0" "dsquare (Fin 0) = Fin 0"
  by (simp_all add: square_def dsquare_def fmul_def IsInf_def zero_of_def c_two)

text \<open>
  Claim C6, as the code has it. For every \<open>x\<close>, \<open>fx\<close>, \<open>dfx\<close>:
  \<^verbatim>\<open>NewtonRaphson(x, fx, dfx)\<close> is \<open>x - fx(x)/dfx(x)\<close>. When \<open>dfx(x) == 0\<close> it is an
  infinity if \<open>fx(x)\<close> is neither NaN nor zero and \<open>x\<close> is neither NaN nor equal to the
  infinity \<open>fx(x)/dfx(x)\<close>, and it is NaN in every other case. It is NaN when \<open>fx(x)\<close> or
  \<open>dfx(x)\<close> is NaN. \<^verbatim>\<open>Homeier(x, fx, dfx)\<close> is \<open>x - f0/dfx(m)\<close> with \<open>f0 = fx(x)\<close> and
  \<open>m = x - 0.5*f0/dfx(x)\<close>.
\<close>

theorem stepping_strategies:
  "NewtonRaphson x f df = fsub x (fdiv (f x) (df x))
   \<and> (feq (df x) (const64 0) \<longrightarrow>
        (if \<not> IsNaN (f x) \<and> \<not> feq (f x) (const64 0) \<and> \<not> IsNaN x
             \<and> \<not> feq x (fdiv (f x) (df x))
         then IsInf (NewtonRaphson x f df) 0
         else IsNaN (NewtonRaphson x f df)))
   \<and> (IsNaN (f x) \<or> IsNaN (df x) \<longrightarrow> IsNaN (NewtonRaphson x f df))
   \<and> Homeier x f df =
        (let f0 = f x; m = fsub x (fdiv (fmul (const64 (1 / 2)) f0) (df x))
         in fsub x (fdiv f0 (df m)))"
proof -
  have zero: "if \<not> IsNaN (f x) \<and> \<not> feq (f x) (const64 0) \<and> \<not> IsNaN x
             \<and> \<not> feq x (fdiv (f x) (df x))
         then IsInf (NewtonRaphson x f df) 0
         else IsNaN (NewtonRaphson x f df)" if "feq (df x) (const64 0)"
  proof -
    from that have z: "is_zero (df x)" by (simp add: c_zero feq_zero)
    show ?thesis
    proof (cases "IsNaN (f x) \<or> is_zero (f x)")
      case True
      then have "fdiv (f x) (df x) = NaN" by (simp add: fdiv_by_zero[OF z])
      with True show ?thesis
        by (auto simp: NewtonRaphson_def fsub_NaN_right c_zero feq_zero)
    next
      case False
      define sg where "sg = (signbit (f x) \<noteq> signbit (df x))"
      have q: "fdiv (f x) (df x) = inf_of sg"
        using False by (simp add: fdiv_by_zero[OF z] sg_def)
      show ?thesis
        using False
        by (simp add: NewtonRaphson_def q fsub_inf feq_inf IsInf_inf_of c_zero feq_zero)
    qed
  qed
  have nan: "IsNaN (NewtonRaphson x f df)" if "IsNaN (f x) \<or> IsNaN (df x)"
    using that by (auto simp: NewtonRaphson_def fdiv_def fsub_def fadd_NaN_right)
  have nr: "NewtonRaphson x f df = fsub x (fdiv (f x) (df x))"
    by (simp add: NewtonRaphson_def)
  have ho: "Homeier x f df =
        (let f0 = f x; m = fsub x (fdiv (fmul (const64 (1 / 2)) f0) (df x))
         in fsub x (fdiv f0 (df m)))"
    by (simp add: Homeier_def Let_def)
  from zero nan show ?thesis
    by (intro conjI impI) (rule nr, assumption, assumption, rule ho)
qed

theorem stepping_strategies_witness:
  "feq (const_fn (Fin 0) (Fin 3)) (const64 0)
   \<and> \<not> IsNaN (const_fn (Fin 1) (Fin 3)) \<and> \<not> feq (const_fn (Fin 1) (Fin 3)) (const64 0)
   \<and> \<not> IsNaN (Fin 3)
   \<and> \<not> feq (Fin 3) (fdiv (const_fn (Fin 1) (Fin 3)) (const_fn (Fin 0) (Fin 3)))
   \<and> IsInf (NewtonRaphson (Fin 3) (const_fn (Fin 1)) (const_fn (Fin 0))) 0"
  using stepping_strategies[of "Fin 3" "const_fn (Fin 1)" "const_fn (Fin 0)"]
  by (simp add: c_zero const_fn_def fdiv_def IsInf_def inf_of_def fsub_def)

text \<open>
  Claim C6 as it is stated fails: a zero derivative does not always give an infinity.
  For \<open>x\<^sup>2\<close> with derivative \<open>2x\<close> at \<open>x = 0\<close> both \<open>fx(x)\<close> and \<open>dfx(x)\<close> are zero, and the
  result is \<open>0 - 0/0\<close>, a NaN. For the constant 1 with derivative 0 at \<open>x = +Inf\<close> the
  result is \<open>+Inf - 1/0 = +Inf - +Inf\<close>, a NaN as well.
\<close>

theorem stepping_strategies_counterexample:
  "feq (dsquare (Fin 0)) (const64 0)
   \<and> \<not> IsInf (NewtonRaphson (Fin 0) square dsquare) 0
   \<and> IsNaN (NewtonRaphson (Fin 0) square dsquare)
   \<and> feq (const_fn (Fin 0) PInf) (const64 0)
   \<and> \<not> IsInf (NewtonRaphson PInf (const_fn (Fin 1)) (const_fn (Fin 0))) 0
   \<and> IsNaN (NewtonRaphson PInf (const_fn (Fin 1)) (const_fn (Fin 0)))"
  by (simp add: sq0 c_zero NewtonRaphson_def const_fn_def fdiv_def fsub_def IsInf_def inf_of_def)

section \<open>Bisect and Sign\<close>

lemma c1e11: "const64 (1 / 10 ^ 11) = Fin (6189700196426901 / 2 ^ 89)"
  by code_simp

lemma bracket_0: "bracket f a b 0 = (a, b)"
  by (simp add: bracket_def)

lemma bracket_Suc:
  "bracket f a b (Suc i)
   = bracket f (fst (bisect_next f (a, b))) (snd (bisect_next f (a, b))) i"
  by (simp add: bracket_def funpow_swap1)

lemma bracket_Suc_right: "bracket f a b (Suc i) = bisect_next f (bracket f a b i)"
  by (simp add: bracket_def)

text \<open>\<^verbatim>\<open>Sign\<close> computes the sign class by its two comparisons.\<close>

lemma Sign_sign_class: "Sign v = sign_class v"
  by (cases v) (simp_all add: Sign_def const64_def fgt_def)

text \<open>One iteration of the loop of \<^verbatim>\<open>Bisect\<close> is one step of the specification's
  iteration.\<close>

lemma Bisect_loop_Suc:
  "Bisect_loop (Suc k) f a b =
     (if bisect_stop f (a, b) then bisect_mid (a, b)
      else Bisect_loop k f (fst (bisect_next f (a, b))) (snd (bisect_next f (a, b))))"
  by (simp add: bisect_stop_def bisect_mid_def bisect_next_def bisectTolerance_def Let_def
      Sign_sign_class del: power_numeral)

lemma Bisect_loop_exhausted:
  "(\<forall>i<k. \<not> bisect_stop f (bracket f a b i)) \<Longrightarrow> Bisect_loop k f a b = NaN"
proof (induction k arbitrary: a b)
  case 0
  then show ?case by simp
next
  case (Suc k)
  from Suc.prems have ns: "\<not> bisect_stop f (a, b)" using bracket_0[of f a b] by force
  have "\<forall>i<k. \<not> bisect_stop f
      (bracket f (fst (bisect_next f (a, b))) (snd (bisect_next f (a, b))) i)"
    using Suc.prems by (auto simp: bracket_Suc[symmetric])
  from Suc.IH[OF this] ns show ?case by (simp only: Bisect_loop_Suc if_False)
qed

lemma Bisect_loop_stops:
  "i < k \<Longrightarrow> bisect_stop f (bracket f a b i) \<Longrightarrow>
   (\<forall>j<i. \<not> bisect_stop f (bracket f a b j)) \<Longrightarrow>
   Bisect_loop k f a b = bisect_mid (bracket f a b i)"
proof (induction k arbitrary: i a b)
  case 0
  then show ?case by simp
next
  case (Suc k)
  show ?case
  proof (cases i)
    case 0
    with Suc.prems show ?thesis
      by (simp add: Bisect_loop_Suc bracket_0 del: Bisect_loop.simps)
  next
    case (Suc i')
    with Suc.prems(3) have ns: "\<not> bisect_stop f (a, b)" using bracket_0[of f a b] by force
    let ?a = "fst (bisect_next f (a, b))" and ?b = "snd (bisect_next f (a, b))"
    have 1: "i' < k" using Suc.prems(1) Suc by simp
    have 2: "bisect_stop f (bracket f ?a ?b i')"
      using Suc.prems(2) Suc by (simp add: bracket_Suc)
    have 3: "\<forall>j<i'. \<not> bisect_stop f (bracket f ?a ?b j)"
      using Suc.prems(3) Suc by (auto simp: bracket_Suc[symmetric])
    from Suc.IH[OF 1 2 3] ns Suc show ?thesis
      by (simp only: Bisect_loop_Suc if_False bracket_Suc)
  qed
qed

text \<open>Three brackets: \<open>[-1, 1]\<close> for the identity, whose midpoint is the root;
  \<open>[-1, 3]\<close> for the identity, where the signs at the midpoint 1 and at \<open>a = -1\<close>
  differ, \<open>b\<close> moves to 1, and the next midpoint is the root; and \<open>[0, +Inf]\<close> for the
  constant 1, which becomes \<open>[+Inf, +Inf]\<close> and never stops.\<close>

lemma bracket_id3:
  "\<not> bisect_stop (\<lambda>x. x) (Fin (- 1), Fin 3)"
  "bisect_next (\<lambda>x. x) (Fin (- 1), Fin 3) = (Fin (- 1), Fin 1)"
  "bisect_stop (\<lambda>x. x) (Fin (- 1), Fin 1)"
  "bisect_mid (Fin (- 1), Fin 1) = Fin 0"
  by code_simp+

lemma run_id3:
  "bisect_stop (\<lambda>x. x) (bracket (\<lambda>x. x) (Fin (- 1)) (Fin 3) 1)"
  "\<not> bisect_stop (\<lambda>x. x) (bracket (\<lambda>x. x) (Fin (- 1)) (Fin 3) 0)"
  "bisect_mid (bracket (\<lambda>x. x) (Fin (- 1)) (Fin 3) 1) = Fin 0"
  using bracket_id3 bracket_Suc_right[of "\<lambda>x. x" "Fin (- 1)" "Fin 3" 0]
  by (simp_all add: bracket_0)

lemma stop_id: "bisect_stop (\<lambda>x. x) (bracket (\<lambda>x. x) (Fin (- 1)) (Fin 1) 0)"
  by (simp add: bracket_0 bisect_stop_def bisect_mid_def c_zero c_two fdiv_def IsInf_def
      zero_of_def)

lemma mid_id: "bisect_mid (bracket (\<lambda>x. x) (Fin (- 1)) (Fin 1) 0) = Fin 0"
  by (simp add: bracket_0 bisect_mid_def c_two fdiv_def IsInf_def zero_of_def)

lemma next_inf:
  "bisect_next (const_fn (Fin 1)) (Fin 0, PInf) = (PInf, PInf)"
  "bisect_next (const_fn (Fin 1)) (PInf, PInf) = (PInf, PInf)"
  by (simp_all add: bisect_next_def bisect_mid_def const_fn_def c_two fdiv_def IsInf_def
      inf_of_def)

lemma bracket_inf:
  "bracket (const_fn (Fin 1)) (Fin 0) PInf i = (if i = 0 then (Fin 0, PInf) else (PInf, PInf))"
  by (induction i) (simp_all add: bracket_0 bracket_Suc_right next_inf)

lemma flt_PInf_left: "\<not> flt PInf b"
  by (cases b) simp_all

lemma no_stop_inf: "\<not> bisect_stop (const_fn (Fin 1)) (bracket (const_fn (Fin 1)) (Fin 0) PInf i)"
  by (simp add: bracket_inf bisect_stop_def const_fn_def c_zero c_two fsub_def fdiv_def
      IsInf_def inf_of_def flt_PInf_left del: power_numeral)

text \<open>
  Claim C5. For every \<open>fx\<close>, \<open>a\<close>, \<open>b\<close>, \<^verbatim>\<open>Bisect\<close> runs at most 100 iterations of the
  specification's step (midpoint \<open>c = (a+b)/2\<close>; stop when \<open>fx(c) == 0\<close> or \<open>(b-a)/2\<close> is
  below \<open>1e-11\<close>; otherwise \<open>a\<close> moves to \<open>c\<close> when \<open>fx(c)\<close> and \<open>fx(a)\<close> are in the
  same sign class and \<open>b\<close> moves to \<open>c\<close> when they are not): it returns the midpoint of
  the first of the brackets 0 to 99 that meets the stop condition, and it returns NaN
  when none of them does.
\<close>

theorem Bisect_characterisation:
  "(\<forall>i<100. bisect_stop f (bracket f a b i) \<and> (\<forall>j<i. \<not> bisect_stop f (bracket f a b j))
        \<longrightarrow> Bisect f a b = bisect_mid (bracket f a b i))
   \<and> ((\<forall>i<100. \<not> bisect_stop f (bracket f a b i)) \<longrightarrow> Bisect f a b = NaN)"
  using Bisect_loop_stops[of _ 100 f a b] Bisect_loop_exhausted[of 100 f a b]
  by (simp add: Bisect_def bisectMaxIter_def)

theorem Bisect_characterisation_witness:
  "Bisect (\<lambda>x. x) (Fin (- 1)) (Fin 1) = Fin 0
   \<and> bracket (\<lambda>x. x) (Fin (- 1)) (Fin 3) 1 = (Fin (- 1), Fin 1)
   \<and> Bisect (\<lambda>x. x) (Fin (- 1)) (Fin 3) = Fin 0
   \<and> Bisect (const_fn (Fin 1)) (Fin 0) PInf = NaN"
proof -
  from Bisect_characterisation[of "\<lambda>x. x" "Fin (- 1)" "Fin 1"]
  have "\<forall>i<100. bisect_stop (\<lambda>x. x) (bracket (\<lambda>x. x) (Fin (- 1)) (Fin 1) i)
          \<and> (\<forall>j<i. \<not> bisect_stop (\<lambda>x. x) (bracket (\<lambda>x. x) (Fin (- 1)) (Fin 1) j))
        \<longrightarrow> Bisect (\<lambda>x. x) (Fin (- 1)) (Fin 1)
              = bisect_mid (bracket (\<lambda>x. x) (Fin (- 1)) (Fin 1) i)"
    by (rule conjunct1)
  from this[rule_format, of 0] stop_id mid_id
  have 1: "Bisect (\<lambda>x. x) (Fin (- 1)) (Fin 1) = Fin 0" by simp
  from Bisect_characterisation[of "const_fn (Fin 1)" "Fin 0" PInf] no_stop_inf
  have 2: "Bisect (const_fn (Fin 1)) (Fin 0) PInf = NaN" by simp
  from Bisect_characterisation[of "\<lambda>x. x" "Fin (- 1)" "Fin 3"]
  have "\<forall>i<100. bisect_stop (\<lambda>x. x) (bracket (\<lambda>x. x) (Fin (- 1)) (Fin 3) i)
          \<and> (\<forall>j<i. \<not> bisect_stop (\<lambda>x. x) (bracket (\<lambda>x. x) (Fin (- 1)) (Fin 3) j))
        \<longrightarrow> Bisect (\<lambda>x. x) (Fin (- 1)) (Fin 3)
              = bisect_mid (bracket (\<lambda>x. x) (Fin (- 1)) (Fin 3) i)"
    by (rule conjunct1)
  from this[rule_format, of 1] run_id3
  have 3: "Bisect (\<lambda>x. x) (Fin (- 1)) (Fin 3) = Fin 0" by (simp add: less_Suc_eq)
  have 4: "bracket (\<lambda>x. x) (Fin (- 1)) (Fin 3) 1 = (Fin (- 1), Fin 1)"
    using bracket_id3(2) bracket_Suc_right[of "\<lambda>x. x" "Fin (- 1)" "Fin 3" 0]
    by (simp add: bracket_0)
  from 1 2 3 4 show ?thesis by simp
qed

text \<open>A bracket on which a function is NaN.\<close>

lemma no_stop_nan:
  "\<not> feq (const_fn NaN (fdiv (fadd (Fin 0) (Fin 2)) (const64 2))) (const64 0)"
  "\<not> flt (fdiv (fsub (Fin 2) (Fin 0)) (const64 2)) bisectTolerance"
  by (simp add: const_fn_def) code_simp

text \<open>
  Claim C10. For every \<open>x\<close> that is NaN, \<^verbatim>\<open>Sign(x)\<close> is 0: both \<open>x < 0\<close> and \<open>x > 0\<close> are
  false, and NaN is in the sign class of zero. In an iteration of \<^verbatim>\<open>Bisect\<close> that does
  not stop, a NaN value of \<open>fx(a)\<close> enters the comparison as sign 0: \<open>a\<close> moves to \<open>c\<close>
  when \<open>Sign(fx(c))\<close> is 0 and \<open>b\<close> moves to \<open>c\<close> otherwise, and the loop goes on.
\<close>

theorem Sign_NaN_is_zero:
  "(IsNaN x \<longrightarrow> \<not> flt x (const64 0) \<and> \<not> fgt x (const64 0) \<and> Sign x = 0
        \<and> Sign x = Sign (const64 0))
   \<and> (IsNaN (f a) \<and> \<not> feq (f (fdiv (fadd a b) (const64 2))) (const64 0)
        \<and> \<not> flt (fdiv (fsub b a) (const64 2)) bisectTolerance \<longrightarrow>
      Bisect_loop (Suc k) f a b =
        (if Sign (f (fdiv (fadd a b) (const64 2))) = 0
         then Bisect_loop k f (fdiv (fadd a b) (const64 2)) b
         else Bisect_loop k f a (fdiv (fadd a b) (const64 2))))"
proof -
  have s: "Sign v = 0" "\<not> flt v (const64 0)" "\<not> fgt v (const64 0)" if "IsNaN v" for v
    using that by (simp_all add: IsNaN_iff Sign_def fgt_def flt_NaN_right)
  have z: "Sign (const64 0) = 0"
    by (simp add: Sign_def c_zero fgt_def)
  show ?thesis
    using s z by (simp add: Let_def)
qed

theorem Sign_NaN_is_zero_witness:
  "IsNaN NaN \<and> Sign NaN = 0
   \<and> IsNaN (const_fn NaN (Fin 0))
   \<and> Bisect_loop (Suc 0) (const_fn NaN) (Fin 0) (Fin 2) = NaN"
  using Sign_NaN_is_zero[of NaN "const_fn NaN" "Fin 0" "Fin 2" 0] no_stop_nan
  by (simp add: const_fn_def)

section \<open>Calls of Find on a store\<close>

text \<open>One round on the store does what the round on values does, when the store holds
  the \<^verbatim>\<open>Finder\<close> and the map at the two addresses; it changes no other cell.\<close>

lemmas st_defs = round_st_def after_excess_st_def heuristics_st_def accept_st_def

lemma round_st_holds:
  assumes "holds \<sigma> pn pm n seen"
  shows "case snd (snd (loop_body n \<lparr>xcur = x, nIter = nIt, resultLookup = seen\<rparr>)) of
       Return v \<Rightarrow> (\<exists>seen'. round_st pn pm x nIt \<sigma> = St_Return v (\<sigma>[pm := MapCell seen']))
     | Continue s' \<Rightarrow>
         round_st pn pm x nIt \<sigma>
         = St_Continue (xcur s') (nIter s') (\<sigma>[pm := MapCell (resultLookup s')])"
proof -
  from assms have id: "\<sigma>[pm := MapCell seen] = \<sigma>"
    by (simp add: holds_def list_update_same_conv[THEN iffD2])
  have ex: "\<exists>seen'. \<sigma> = \<sigma>[pm := MapCell seen']"
    using id by metis
  show ?thesis
    using assms id ex
    by (auto simp: holds_def st_defs body_defs simp del: power_numeral)
qed

lemma holds_update:
  "holds \<sigma> pn pm n seen \<Longrightarrow> holds (\<sigma>[pm := MapCell seen']) pn pm n seen'"
  by (auto simp: holds_def)

lemma same_but_refl: "same_but pm \<sigma> \<sigma>"
  by (simp add: same_but_def)

lemma same_but_update: "same_but pm (\<sigma>[pm := c]) \<sigma>' \<Longrightarrow> same_but pm \<sigma> \<sigma>'"
  by (auto simp: same_but_def)

lemma same_but_update_right: "same_but pm \<sigma> (\<sigma>[pm := c])"
  by (simp add: same_but_def)

lemma run_loop_from_st:
  "run k n s = (es, Return v) \<Longrightarrow> holds \<sigma> pn pm n (resultLookup s) \<Longrightarrow>
   \<exists>\<sigma>'. loop_from_st (pn, pm) (xcur s, nIter s, \<sigma>) = Some (Returned v \<sigma>') \<and> same_but pm \<sigma> \<sigma>'"
proof (induction k arbitrary: s es \<sigma>)
  case 0
  then show ?case by simp
next
  case (Suc k)
  have s: "\<lparr>xcur = xcur s, nIter = nIter s, resultLookup = resultLookup s\<rparr> = s" by simp
  from Suc.prems(1) show ?case
  proof (cases rule: run_Suc_cases)
    case (ret c b w)
    then obtain seen' where
      "round_st pn pm (xcur s) (nIter s) \<sigma> = St_Return v (\<sigma>[pm := MapCell seen'])"
      using round_st_holds[OF Suc.prems(2), of "xcur s" "nIter s"] by (auto simp: s)
    then have "loop_from_st (pn, pm) (xcur s, nIter s, \<sigma>)
        = Some (Returned v (\<sigma>[pm := MapCell seen']))"
      by (subst loop_from_st.simps) simp
    then show ?thesis using same_but_update_right by blast
  next
    case (cont c b s' es')
    let ?\<sigma> = "\<sigma>[pm := MapCell (resultLookup s')]"
    from cont(1) have r: "round_st pn pm (xcur s) (nIter s) \<sigma> = St_Continue (xcur s') (nIter s') ?\<sigma>"
      using round_st_holds[OF Suc.prems(2), of "xcur s" "nIter s"] by (simp add: s)
    have h: "holds ?\<sigma> pn pm n (resultLookup s')" using Suc.prems(2) by (rule holds_update)
    from Suc.IH[OF cont(2) h] obtain \<sigma>' where
      l: "loop_from_st (pn, pm) (xcur s', nIter s', ?\<sigma>) = Some (Returned v \<sigma>')"
      and sb: "same_but pm ?\<sigma> \<sigma>'" by blast
    from r l have "loop_from_st (pn, pm) (xcur s, nIter s, \<sigma>) = Some (Returned v \<sigma>')"
      by (subst loop_from_st.simps) simp
    with sb show ?thesis using same_but_update by blast
  qed
qed

lemma loop_from_st_loop_from_aux:
  "loop_from_st ptrs st = Some r \<Longrightarrow>
   (\<forall>seen. holds (snd (snd st)) (fst ptrs) (snd ptrs) n seen \<longrightarrow>
     (\<exists>v \<sigma>'. r = Returned v \<sigma>' \<and>
        loop_from n \<lparr>xcur = fst st, nIter = fst (snd st), resultLookup = seen\<rparr> = Some v))"
proof (induction rule: loop_from_st.raw_induct[rotated, consumes 1, case_names step])
  case (step lf ptrs st r)
  show ?case
  proof (intro allI impI)
    fix seen
    assume h: "holds (snd (snd st)) (fst ptrs) (snd ptrs) n seen"
    let ?s = "\<lparr>xcur = fst st, nIter = fst (snd st), resultLookup = seen\<rparr>"
    let ?\<sigma> = "snd (snd st)"
    obtain c b out where body: "loop_body n ?s = (c, b, out)"
      by (cases "loop_body n ?s") auto
    show "\<exists>v \<sigma>'. r = Returned v \<sigma>' \<and> loop_from n ?s = Some v"
    proof (cases out)
      case (Return v)
      with body step(2) round_st_holds[OF h, of "fst st" "fst (snd st)"]
      have "\<exists>\<sigma>'. r = Returned v \<sigma>'" by auto
      moreover from body Return have "loop_from n ?s = Some v" by (simp add: loop_from_Return)
      ultimately show ?thesis by blast
    next
      case (Continue s')
      let ?\<tau> = "?\<sigma>[snd ptrs := MapCell (resultLookup s')]"
      from body Continue step(2) round_st_holds[OF h, of "fst st" "fst (snd st)"]
      have "lf ptrs (xcur s', nIter s', ?\<tau>) = Some r" by simp
      from step(1)[OF this, rule_format, of "resultLookup s'"] holds_update[OF h]
      obtain v \<sigma>' where
        "r = Returned v \<sigma>'"
        "loop_from n \<lparr>xcur = xcur s', nIter = nIter s', resultLookup = resultLookup s'\<rparr> = Some v"
        by auto
      moreover from body Continue have "loop_from n ?s = loop_from n s'"
        by (simp add: loop_from_Continue)
      moreover have "\<lparr>xcur = xcur s', nIter = nIter s', resultLookup = resultLookup s'\<rparr> = s'"
        by simp
      ultimately show ?thesis by simp
    qed
  qed
qed

lemma loop_from_st_loop_from:
  "loop_from_st (pn, pm) (x, nIt, \<sigma>) = Some r \<Longrightarrow> holds \<sigma> pn pm n seen \<Longrightarrow>
   \<exists>v \<sigma>'. r = Returned v \<sigma>' \<and>
      loop_from n \<lparr>xcur = x, nIter = nIt, resultLookup = seen\<rparr> = Some v"
  using loop_from_st_loop_from_aux[of "(pn, pm)" "(x, nIt, \<sigma>)" r n] by simp


lemma foldl_apply_option:
  "pn < length \<sigma> \<Longrightarrow> \<sigma> ! pn = FinderCell ini \<Longrightarrow>
   foldl (\<lambda>\<tau> option. apply_option option pn \<tau>) \<sigma> options
   = \<sigma>[pn := FinderCell (foldl (\<lambda>obj option. option obj) ini options)]"
proof (induction options arbitrary: \<sigma> ini)
  case Nil
  then show ?case by (simp add: list_update_same_conv[THEN iffD2])
next
  case (Cons opt options)
  have "apply_option opt pn \<sigma> = \<sigma>[pn := FinderCell (opt ini)]"
    using Cons.prems by (simp add: apply_option_def)
  moreover have "pn < length (\<sigma>[pn := FinderCell (opt ini)])"
    "\<sigma>[pn := FinderCell (opt ini)] ! pn = FinderCell (opt ini)"
    using Cons.prems by simp_all
  ultimately show ?case using Cons.IH[of "\<sigma>[pn := FinderCell (opt ini)]" "opt ini"]
    by simp
qed

lemma Find_st_unfold:
  "Find_st f df xInit options \<sigma>
   = loop_from_st (length \<sigma>, Suc (length \<sigma>)) (xInit, 0, start_store f df options \<sigma>)"
proof -
  have "foldl (\<lambda>\<tau> option. apply_option option (length \<sigma>) \<tau>) (\<sigma> @ [FinderCell (new_Finder f df)]) options
        = (\<sigma> @ [FinderCell (new_Finder f df)])[length \<sigma> := FinderCell (configure f df options)]"
    by (subst foldl_apply_option[where ini = "new_Finder f df"]) (simp_all add: configure_def)
  then show ?thesis
    by (simp add: Find_st_def loop_st_def alloc_def start_store_def)
qed

lemma holds_start:
  "holds (start_store f df options \<sigma>) (length \<sigma>) (Suc (length \<sigma>)) (configure f df options) []"
  by (simp add: holds_def start_store_def nth_append)

lemma Find_st_Find:
  "(Find f df xInit options = None \<longrightarrow> Find_st f df xInit options \<sigma> = None)
   \<and> (\<forall>v. Find f df xInit options = Some v \<longrightarrow>
        (\<exists>\<sigma>'. Find_st f df xInit options \<sigma> = Some (Returned v \<sigma>')
           \<and> same_but (Suc (length \<sigma>)) (start_store f df options \<sigma>) \<sigma>'))"
proof (intro conjI allI impI)
  assume none: "Find f df xInit options = None"
  show "Find_st f df xInit options \<sigma> = None"
  proof (rule ccontr)
    assume "Find_st f df xInit options \<sigma> \<noteq> None"
    then obtain r where "Find_st f df xInit options \<sigma> = Some r" by auto
    from loop_from_st_loop_from[OF this[unfolded Find_st_unfold] holds_start] none
    show False by (simp add: Find_def loop_def loop_init_def)
  qed
next
  fix v assume "Find f df xInit options = Some v"
  then have "loop_from (configure f df options) (loop_init xInit) = Some v"
    by (simp add: Find_def loop_def)
  then obtain k es where r: "run k (configure f df options) (loop_init xInit) = (es, Return v)"
    using loop_from_run_Return by blast
  have h: "holds (start_store f df options \<sigma>) (length \<sigma>) (Suc (length \<sigma>))
             (configure f df options) (resultLookup (loop_init xInit))"
    using holds_start by (simp add: loop_init_def)
  from run_loop_from_st[OF r h]
  show "\<exists>\<sigma>'. Find_st f df xInit options \<sigma> = Some (Returned v \<sigma>')
           \<and> same_but (Suc (length \<sigma>)) (start_store f df options \<sigma>) \<sigma>'"
    by (simp add: Find_st_unfold loop_init_def)
qed

lemma same_but_start_prefix:
  "same_but (Suc (length \<sigma>)) (start_store f df options \<sigma>) \<sigma>' \<Longrightarrow>
   length \<sigma>' = length \<sigma> + 2 \<and> take (length \<sigma>) \<sigma>' = \<sigma>
   \<and> \<sigma>' ! length \<sigma> = FinderCell (configure f df options)"
  by (auto simp: same_but_def start_store_def nth_append list_eq_iff_nth_eq)

text \<open>The same call as for claim C8, on any store \<open>pre\<close>: it appends its \<^verbatim>\<open>Finder\<close> and
  its map, which holds the key 1 when the call returns.\<close>

lemma round_st_lin1_first:
  "round_st (length pre) (Suc (length pre)) (Fin 0) 0
      (pre @ [FinderCell (configure lin1 (const_fn (Fin 1)) [WithHeuristics]), MapCell []])
   = St_Continue (Fin 1) 1
      (pre @ [FinderCell (configure lin1 (const_fn (Fin 1)) [WithHeuristics]), MapCell [Fin 1]])"
  by (simp add: st_defs Let_def nth_append configure_single WithHeuristics_def new_Finder_def
      NR_lin1 bounds01 IsInf_def abs10 c1e15_lt_1 word_sle_eq list_update_append)

lemma round_st_lin1_next:
  "round_st (length pre) (Suc (length pre)) (Fin 1) i
      (pre @ [FinderCell (configure lin1 (const_fn (Fin 1)) [WithHeuristics]), MapCell [Fin 1]])
   = (if word_sle 5 (i + 1)
      then St_Return (Fin 1)
        (pre @ [FinderCell (configure lin1 (const_fn (Fin 1)) [WithHeuristics]), MapCell [Fin 1]])
      else St_Continue (Fin 1) (i + 1)
        (pre @ [FinderCell (configure lin1 (const_fn (Fin 1)) [WithHeuristics]), MapCell [Fin 1]]))"
  by (simp add: st_defs Let_def nth_append configure_single WithHeuristics_def new_Finder_def
      NR_lin1 bounds01 IsInf_def abs_lin1 c1e15_gt_0 c1e9_pos)

lemma Find_st_lin1:
  "Find_st lin1 (const_fn (Fin 1)) (Fin 0) [WithHeuristics] pre
   = Some (Returned (Fin 1)
       (pre @ [FinderCell (configure lin1 (const_fn (Fin 1)) [WithHeuristics]), MapCell [Fin 1]]))"
  unfolding Find_st_unfold start_store_def
  apply (subst loop_from_st.simps,
      simp only: fst_conv snd_conv round_st_lin1_first st_outcome.case)
  apply (subst loop_from_st.simps,
      simp only: fst_conv snd_conv round_st_lin1_next st_outcome.case, simp add: word_sle_eq)
  apply (subst loop_from_st.simps,
      simp only: fst_conv snd_conv round_st_lin1_next st_outcome.case, simp add: word_sle_eq)
  apply (subst loop_from_st.simps,
      simp only: fst_conv snd_conv round_st_lin1_next st_outcome.case, simp add: word_sle_eq)
  apply (subst loop_from_st.simps,
      simp only: fst_conv snd_conv round_st_lin1_next st_outcome.case, simp add: word_sle_eq)
  done

text \<open>
  Claim C9. For every \<open>fx\<close>, \<open>dfx\<close>, initial value and option list, \<^verbatim>\<open>Find\<close> on any two
  stores \<open>\<tau>\<close> and \<open>\<sigma>\<close> gives the same result: both calls run forever, or both return the
  same value. A call that returns has left every cell it found as it was and has added
  its own \<^verbatim>\<open>Finder\<close> and map; a second call with the same arguments on the store the
  first one leaves, where the first call's map still holds its keys, returns the same
  value. No state carries over from one call to the next: each call allocates a fresh
  \<^verbatim>\<open>Finder\<close> and a fresh empty map and reads no other cell.
\<close>

theorem Find_carries_no_state:
  "map_option value_of (Find_st f df xInit options \<tau>)
     = map_option value_of (Find_st f df xInit options \<sigma>)
   \<and> (Find_st f df xInit options \<sigma> = Some r \<longrightarrow>
        (\<exists>v \<sigma>'. r = Returned v \<sigma>' \<and> take (length \<sigma>) \<sigma>' = \<sigma>
           \<and> (\<exists>\<sigma>''. Find_st f df xInit options \<sigma>' = Some (Returned v \<sigma>''))))"
proof -
  have pure: "map_option value_of (Find_st f df xInit options \<rho>)
      = map_option Some (Find f df xInit options)" for \<rho>
  proof (cases "Find f df xInit options")
    case None
    with Find_st_Find[of f df xInit options \<rho>] show ?thesis by simp
  next
    case (Some v)
    with Find_st_Find[of f df xInit options \<rho>] show ?thesis by auto
  qed
  have seq: "\<exists>v \<sigma>'. r = Returned v \<sigma>' \<and> take (length \<sigma>) \<sigma>' = \<sigma>
           \<and> (\<exists>\<sigma>''. Find_st f df xInit options \<sigma>' = Some (Returned v \<sigma>''))"
    if call: "Find_st f df xInit options \<sigma> = Some r"
  proof -
    from loop_from_st_loop_from[OF call[unfolded Find_st_unfold] holds_start]
    obtain v \<sigma>0 where r: "r = Returned v \<sigma>0" and F: "Find f df xInit options = Some v"
      by (auto simp: Find_def loop_def loop_init_def)
    from Find_st_Find[of f df xInit options \<sigma>] F obtain \<sigma>' where
      s: "Find_st f df xInit options \<sigma> = Some (Returned v \<sigma>')"
      and sb: "same_but (Suc (length \<sigma>)) (start_store f df options \<sigma>) \<sigma>'" by blast
    from s call r have r': "r = Returned v \<sigma>'" by simp
    have any: "\<exists>\<tau>'. Find_st f df xInit options \<rho> = Some (Returned v \<tau>')" for \<rho>
      using Find_st_Find[of f df xInit options \<rho>] F by blast
    from r' same_but_start_prefix[OF sb] any show ?thesis by blast
  qed
  from pure[of \<tau>] pure[of \<sigma>] seq show ?thesis by simp
qed

theorem Find_carries_no_state_witness:
  "Find_st lin1 (const_fn (Fin 1)) (Fin 0) [WithHeuristics] []
     = Some (Returned (Fin 1)
         [FinderCell (configure lin1 (const_fn (Fin 1)) [WithHeuristics]), MapCell [Fin 1]])
   \<and> Find_st lin1 (const_fn (Fin 1)) (Fin 0) [WithHeuristics]
       [FinderCell (configure lin1 (const_fn (Fin 1)) [WithHeuristics]), MapCell [Fin 1]]
     = Some (Returned (Fin 1)
         [FinderCell (configure lin1 (const_fn (Fin 1)) [WithHeuristics]), MapCell [Fin 1],
          FinderCell (configure lin1 (const_fn (Fin 1)) [WithHeuristics]), MapCell [Fin 1]])"
  using Find_carries_no_state[of lin1 "const_fn (Fin 1)" "Fin 0" "[WithHeuristics]"
      "[FinderCell (configure lin1 (const_fn (Fin 1)) [WithHeuristics]), MapCell [Fin 1]]" "[]"]
    Find_st_lin1[of "[]"]
    Find_st_lin1[of "[FinderCell (configure lin1 (const_fn (Fin 1)) [WithHeuristics]),
                      MapCell [Fin 1]]"]
  by simp

end
